theory Spec2Isabelle
  imports Main "HOL-Library.AList" "HOL-Library.Char_ord" "HOL-Library.List_Lexorder"
begin

section \<open>The invoice pipeline of \<open>ollama_run.py\<close>\<close>

text \<open>
  The script walks a folder, rasterises every PDF into PNG pages (PyMuPDF), feeds each
  page to an external model runner (\<open>ollama\<close>) and collects the answers in one results
  file per PDF. The embedding makes the three effects explicit: the file system, the log
  of runner invocations and the console. Library calls that can raise return a sum, with
  the exception on the left.
\<close>

subsection \<open>Strings and paths\<close>

type_synonym path = "string list"

text \<open>
  A path is the list of its components. \<open>os.path.join\<close> is only ever called with a single
  entry name as second argument, so it appends one component; \<open>path_text\<close> is the string
  the program prints and sends, the components joined by the platform separator.
\<close>

definition path_join :: "path \<Rightarrow> string \<Rightarrow> path" where
  "path_join p name = p @ [name]"

definition basename :: "path \<Rightarrow> string" where
  "basename p = (if p = [] then [] else last p)"

fun path_text :: "string \<Rightarrow> path \<Rightarrow> string" where
  "path_text sep [] = []"
| "path_text sep [x] = x"
| "path_text sep (x # y # ys) = x @ sep @ path_text sep (y # ys)"

definition endswith :: "string \<Rightarrow> string \<Rightarrow> bool" where
  "endswith s suf = (length suf \<le> length s \<and> drop (length s - length suf) s = suf)"

text \<open>
  \<open>os.path.splitext(name)[0]\<close> for an entry name (no separator): everything before the
  last dot, unless only dots precede it, in which case the name is returned whole.
\<close>

definition splitext_root :: "string \<Rightarrow> string" where
  "splitext_root p =
     (let root = rev (tl (dropWhile (\<lambda>c. c \<noteq> CHR ''.'') (rev p)))
      in if CHR ''.'' \<in> set p \<and> (\<exists>c \<in> set root. c \<noteq> CHR ''.'') then root else p)"

text \<open>The decimal text of a number, as an f-string formats an \<open>int\<close>.\<close>

fun str_nat :: "nat \<Rightarrow> string" where
  "str_nat n =
     (if n < 10 then [''0123456789'' ! n]
      else str_nat (n div 10) @ [''0123456789'' ! (n mod 10)])"

declare str_nat.simps [simp del]

definition quote :: string where
  "quote = [CHR 0x27]"

definition newline :: string where
  "newline = [CHR 0x0A]"

subsection \<open>Exceptions, the file system and the environment\<close>

datatype exn =
    FileNotFoundError
  | FileExistsError
  | NotADirectoryError
  | IsADirectoryError
  | PermissionError
  | FileDataError
  | RuntimeError
  | UnicodeDecodeError
  | IndexError

fun str_exn :: "exn \<Rightarrow> string" where
  "str_exn FileNotFoundError = ''FileNotFoundError''"
| "str_exn FileExistsError = ''FileExistsError''"
| "str_exn NotADirectoryError = ''NotADirectoryError''"
| "str_exn IsADirectoryError = ''IsADirectoryError''"
| "str_exn PermissionError = ''PermissionError''"
| "str_exn FileDataError = ''FileDataError''"
| "str_exn RuntimeError = ''RuntimeError''"
| "str_exn UnicodeDecodeError = ''UnicodeDecodeError''"
| "str_exn IndexError = ''IndexError''"

type_synonym page = string
type_synonym pixmap = string

text \<open>
  A file holds either a document that PyMuPDF can open, given by its pages, or plain
  bytes. The file system is an association list from paths to nodes; its order is the
  order in which \<open>os.listdir\<close> reports entries (the file system's default, not sorted).
\<close>

datatype content = Pdf "page list" | Bytes string

datatype node = Dir | File content

type_synonym filesystem = "(path \<times> node) list"

datatype run_result = Completed int string string | Raised exn

text \<open>
  What the program cannot decide itself: the separator of the platform, which paths can be
  written, what rendering a page at a resolution gives (\<open>None\<close>: \<open>get_pixmap\<close> raises) and
  what \<open>subprocess.run\<close> on the runner gives, as return code, standard output and standard
  error, or as the exception it raises. The runner's answer may differ from call to call:
  it takes the number of earlier invocations.
\<close>

record env =
  os_sep :: string
  writable :: "path \<Rightarrow> bool"
  get_pixmap :: "page \<Rightarrow> nat \<Rightarrow> pixmap option"
  ollama :: "nat \<Rightarrow> string list \<Rightarrow> string \<Rightarrow> run_result"

record state =
  fs :: filesystem
  calls :: "(string list \<times> string) list"
  console :: "string list"

definition py_print :: "string \<Rightarrow> state \<Rightarrow> state" where
  "py_print line s = s\<lparr>console := console s @ [line]\<rparr>"

definition isdir :: "filesystem \<Rightarrow> path \<Rightarrow> bool" where
  "isdir fsys p = (p = [] \<or> map_of fsys p = Some Dir)"

text \<open>
  \<open>os.makedirs(p, exist_ok=True)\<close>: a missing parent is created first; an existing
  directory is accepted; a file in the way, a parent that is no directory or a refused
  write raises.
\<close>

function makedirs :: "env \<Rightarrow> path \<Rightarrow> filesystem \<Rightarrow> exn + filesystem" where
  "makedirs env p fsys =
     (if p = [] then Inr fsys
      else
        case (if butlast p \<noteq> [] \<and> map_of fsys (butlast p) = None
              then makedirs env (butlast p) fsys else Inr fsys) of
          Inl e \<Rightarrow> Inl e
        | Inr fs1 \<Rightarrow>
            (case map_of fs1 p of
               Some Dir \<Rightarrow> Inr fs1
             | Some (File c) \<Rightarrow> Inl FileExistsError
             | None \<Rightarrow>
                 if \<not> isdir fs1 (butlast p) then Inl NotADirectoryError
                 else if \<not> writable env p then Inl PermissionError
                 else Inr (fs1 @ [(p, Dir)])))"
  by pat_completeness auto
termination
  by (relation "measure (\<lambda>(env, p, fsys). length p)") auto

declare makedirs.simps [simp del]

text \<open>\<open>os.listdir(d)\<close>: the entry names directly under \<open>d\<close>.\<close>

definition entries :: "filesystem \<Rightarrow> path \<Rightarrow> string list" where
  "entries fsys d = remdups (map last (filter (\<lambda>q. q \<noteq> [] \<and> butlast q = d) (map fst fsys)))"

definition listdir :: "filesystem \<Rightarrow> path \<Rightarrow> exn + string list" where
  "listdir fsys d =
     (if isdir fsys d then Inr (entries fsys d)
      else if map_of fsys d = None then Inl FileNotFoundError
      else Inl NotADirectoryError)"

text \<open>
  Creating or replacing a file: \<open>open(p, "w")\<close> and \<open>pix.save(p)\<close>. The previous content,
  if any, is gone.
\<close>

definition write_file :: "env \<Rightarrow> path \<Rightarrow> content \<Rightarrow> filesystem \<Rightarrow> exn + filesystem" where
  "write_file env p c fsys =
     (if p = [] \<or> map_of fsys p = Some Dir then Inl IsADirectoryError
      else if \<not> isdir fsys (butlast p) then Inl FileNotFoundError
      else if \<not> writable env p then Inl PermissionError
      else Inr (AList.update p (File c) fsys))"

text \<open>\<open>fitz.open(p)\<close>: the pages of the document, or the exception.\<close>

definition fitz_open :: "filesystem \<Rightarrow> path \<Rightarrow> exn + page list" where
  "fitz_open fsys p =
     (case map_of fsys p of
        None \<Rightarrow> Inl FileNotFoundError
      | Some Dir \<Rightarrow> Inl FileDataError
      | Some (File (Bytes b)) \<Rightarrow> Inl FileDataError
      | Some (File (Pdf pages)) \<Rightarrow> Inr pages)"

subsection \<open>\<open>convert_pdf_pages_to_png\<close>\<close>

definition page_png :: "string \<Rightarrow> nat \<Rightarrow> string" where
  "page_png pdf_name page_number = pdf_name @ ''_page_'' @ str_nat (page_number + 1) @ ''.png''"

text \<open>
  The loop \<open>for page_number in range(len(doc))\<close>, from \<open>page_number\<close> on, over the pages
  still to come. An exception leaves the loop with the state reached so far.
\<close>

fun render_pages ::
  "env \<Rightarrow> path \<Rightarrow> string \<Rightarrow> nat \<Rightarrow> page list \<Rightarrow> nat \<Rightarrow> state \<Rightarrow> (exn \<times> state) + state" where
  "render_pages env output_folder pdf_name n [] page_number s = Inr s"
| "render_pages env output_folder pdf_name n (page # rest) page_number s =
     (let s1 = py_print (''Rendering page '' @ str_nat (page_number + 1) @ '' of ''
                          @ str_nat n @ ''...'') s
      in case get_pixmap env page 300 of
           None \<Rightarrow> Inl (RuntimeError, s1)
         | Some pix \<Rightarrow>
             (let output_file = path_join output_folder (page_png pdf_name page_number)
              in case write_file env output_file (Bytes pix) (fs s1) of
                   Inl e \<Rightarrow> Inl (e, s1)
                 | Inr fs' \<Rightarrow>
                     render_pages env output_folder pdf_name n rest (page_number + 1)
                       (s1\<lparr>fs := fs'\<rparr>)))"

definition convert_error_line :: "env \<Rightarrow> path \<Rightarrow> exn \<Rightarrow> string" where
  "convert_error_line env pdf_path e =
     ''Error converting '' @ path_text (os_sep env) pdf_path @ '' to PNG: '' @ str_exn e"

definition convert_pdf_pages_to_png :: "env \<Rightarrow> path \<Rightarrow> path \<Rightarrow> state \<Rightarrow> bool \<times> state" where
  "convert_pdf_pages_to_png env pdf_path output_folder s =
     (let s1 = py_print (''Converting PDF '' @ quote @ path_text (os_sep env) pdf_path @ quote
                          @ '' into PNGs...'') s
      in case fitz_open (fs s1) pdf_path of
           Inl e \<Rightarrow> (False, py_print (convert_error_line env pdf_path e) s1)
         | Inr doc \<Rightarrow>
             (let pdf_name = splitext_root (basename pdf_path)
              in case render_pages env output_folder pdf_name (length doc) doc 0 s1 of
                   Inl (e, s2) \<Rightarrow> (False, py_print (convert_error_line env pdf_path e) s2)
                 | Inr s2 \<Rightarrow>
                     (True, py_print (''PDF '' @ quote @ path_text (os_sep env) pdf_path @ quote
                                       @ '' successfully converted to PNGs.'') s2)))"

subsection \<open>\<open>pdf_to_text\<close>\<close>

definition runner_request :: "env \<Rightarrow> string \<Rightarrow> path \<Rightarrow> string" where
  "runner_request env prompt page_path = prompt @ '' File: '' @ path_text (os_sep env) page_path"

text \<open>
  The body of the page loop for one PNG (lines 113 to 132): the text written to the open
  results file is appended to \<open>buf\<close>, which reaches the file when it is closed. Only
  \<open>FileNotFoundError\<close> is handled; any other exception of the call leaves the function.
\<close>

definition process_page ::
  "env \<Rightarrow> string \<Rightarrow> string \<Rightarrow> path \<Rightarrow> string \<Rightarrow> string \<Rightarrow> state \<Rightarrow> exn + (string \<times> state)" where
  "process_page env model prompt pdf_output_folder page_filename buf s =
     (let page_path = path_join pdf_output_folder page_filename;
          s1 = py_print (''Processing PNG: '' @ page_filename @ '' using model '' @ quote @ model
                          @ quote @ ''...'') s;
          argv = [''ollama'', ''run'', model];
          input = runner_request env prompt page_path;
          s2 = s1\<lparr>calls := calls s1 @ [(argv, input)]\<rparr>
      in case ollama env (length (calls s1)) argv input of
           Raised e \<Rightarrow>
             if e = FileNotFoundError
             then Inr (buf @ ''Error processing '' @ page_filename @ '': Ollama CLI not found''
                           @ newline,
                       py_print ''Ollama CLI not found. Ensure it is installed and available in your PATH.'' s2)
             else Inl e
         | Completed returncode out err \<Rightarrow>
             if returncode \<noteq> 0
             then Inr (buf @ ''Error processing '' @ page_filename @ '': '' @ err @ newline,
                       py_print (''Error processing '' @ page_filename @ '': '' @ err) s2)
             else Inr (buf @ out @ newline,
                       py_print (''Successfully processed '' @ page_filename) s2))"

text \<open>The loop over the sorted listing of the per-document folder.\<close>

fun extract_pages ::
  "env \<Rightarrow> string \<Rightarrow> string \<Rightarrow> path \<Rightarrow> string list \<Rightarrow> string \<Rightarrow> state \<Rightarrow> exn + (string \<times> state)" where
  "extract_pages env model prompt pdf_output_folder [] buf s = Inr (buf, s)"
| "extract_pages env model prompt pdf_output_folder (page_filename # rest) buf s =
     (if endswith page_filename ''.png''
      then case process_page env model prompt pdf_output_folder page_filename buf s of
             Inl e \<Rightarrow> Inl e
           | Inr (buf', s') \<Rightarrow> extract_pages env model prompt pdf_output_folder rest buf' s'
      else extract_pages env model prompt pdf_output_folder rest buf s)"

text \<open>
  The body of the document loop for one entry ending in \<open>.pdf\<close> (lines 100 to 133).
  \<open>open(..., "w")\<close> creates the results file empty or empties it; the buffer is written
  when the \<open>with\<close> block ends.
\<close>

definition process_pdf ::
  "env \<Rightarrow> path \<Rightarrow> path \<Rightarrow> string \<Rightarrow> string \<Rightarrow> string \<Rightarrow> state \<Rightarrow> exn + state" where
  "process_pdf env folder_path output_folder model prompt filename s =
     (let pdf_path = path_join folder_path filename;
          pdf_name = splitext_root filename;
          pdf_output_folder = path_join output_folder pdf_name
      in case makedirs env pdf_output_folder (fs s) of
           Inl e \<Rightarrow> Inl e
         | Inr fs1 \<Rightarrow>
             (let pdf_output_file = path_join pdf_output_folder (pdf_name @ ''_results.txt'');
                  s2 = py_print (''Processing PDF: '' @ filename) (s\<lparr>fs := fs1\<rparr>);
                  (ok, s3) = convert_pdf_pages_to_png env pdf_path pdf_output_folder s2
              in if ok
                 then
                   case write_file env pdf_output_file (Bytes []) (fs s3) of
                     Inl e \<Rightarrow> Inl e
                   | Inr fs4 \<Rightarrow>
                       (case listdir fs4 pdf_output_folder of
                          Inl e \<Rightarrow> Inl e
                        | Inr names \<Rightarrow>
                            (case extract_pages env model prompt pdf_output_folder (sort names) []
                                    (s3\<lparr>fs := fs4\<rparr>) of
                               Inl e \<Rightarrow> Inl e
                             | Inr (buf, s5) \<Rightarrow>
                                 Inr (py_print (''Finished processing PDF: '' @ filename)
                                        (s5\<lparr>fs := AList.update pdf_output_file (File (Bytes buf))
                                                    (fs s5)\<rparr>))))
                 else Inr (py_print (''Finished processing PDF: '' @ filename) s3)))"

fun process_files ::
  "env \<Rightarrow> path \<Rightarrow> path \<Rightarrow> string \<Rightarrow> string \<Rightarrow> string list \<Rightarrow> state \<Rightarrow> exn + state" where
  "process_files env folder_path output_folder model prompt [] s = Inr s"
| "process_files env folder_path output_folder model prompt (filename # rest) s =
     (if endswith filename ''.pdf''
      then case process_pdf env folder_path output_folder model prompt filename s of
             Inl e \<Rightarrow> Inl e
           | Inr s' \<Rightarrow> process_files env folder_path output_folder model prompt rest s'
      else process_files env folder_path output_folder model prompt rest s)"

definition pdf_to_text :: "env \<Rightarrow> path \<Rightarrow> string \<Rightarrow> string \<Rightarrow> state \<Rightarrow> exn + state" where
  "pdf_to_text env folder_path model prompt s =
     (let output_folder = path_join folder_path ''converted_pngs''
      in case makedirs env output_folder (fs s) of
           Inl e \<Rightarrow> Inl e
         | Inr fs1 \<Rightarrow>
             (let s2 = py_print ''Starting PDF-to-text conversion...'' (s\<lparr>fs := fs1\<rparr>)
              in case listdir (fs s2) folder_path of
                   Inl e \<Rightarrow> Inl e
                 | Inr names \<Rightarrow>
                     (case process_files env folder_path output_folder model prompt names s2 of
                        Inl e \<Rightarrow> Inl e
                      | Inr s3 \<Rightarrow> Inr (py_print ''All PDFs processed successfully!'' s3))))"

subsection \<open>\<open>list_llm_models\<close>\<close>

text \<open>
  A character stands for a code point below 256. \<open>str.isspace\<close> holds there for tab to
  carriage return, the four separators 28 to 31, the space, NEL (133) and the no-break
  space (160); \<open>str.splitlines\<close> breaks after line feed, vertical tab, form feed, carriage
  return (with a following line feed), the separators 28 to 30 and NEL.
\<close>

definition is_space :: "char \<Rightarrow> bool" where
  "is_space c = ((of_char c :: nat) \<in> {9, 10, 11, 12, 13, 28, 29, 30, 31, 32, 133, 160})"

definition is_linebreak :: "char \<Rightarrow> bool" where
  "is_linebreak c = ((of_char c :: nat) \<in> {10, 11, 12, 13, 28, 29, 30, 133})"

fun splitlines_from :: "string \<Rightarrow> string \<Rightarrow> string list" where
  "splitlines_from cur [] = (if cur = [] then [] else [cur])"
| "splitlines_from cur [c] = (if is_linebreak c then [cur] else [cur @ [c]])"
| "splitlines_from cur (c # c' # cs) =
     (if is_linebreak c
      then (if c = CHR 0x0D \<and> c' = CHR 0x0A then cur # splitlines_from [] cs
            else cur # splitlines_from [] (c' # cs))
      else splitlines_from (cur @ [c]) (c' # cs))"

definition py_splitlines :: "string \<Rightarrow> string list" where
  "py_splitlines text = splitlines_from [] text"

definition py_strip :: "string \<Rightarrow> string" where
  "py_strip line = rev (dropWhile is_space (rev (dropWhile is_space line)))"

text \<open>\<open>str.split()\<close> without argument: the maximal runs of characters that are no space.\<close>

function py_split :: "string \<Rightarrow> string list" where
  "py_split [] = []"
| "py_split (c # cs) =
     (if is_space c then py_split cs
      else takeWhile (\<lambda>x. \<not> is_space x) (c # cs)
             # py_split (dropWhile (\<lambda>x. \<not> is_space x) (c # cs)))"
  by pat_completeness auto
termination
  by (relation "measure length") (auto simp: le_imp_less_Suc length_dropWhile_le)

text \<open>
  The comprehension \<open>[line.split()[0] for line in lines if line.strip()]\<close>; indexing an
  empty list raises.
\<close>

fun first_tokens :: "string list \<Rightarrow> exn + string list" where
  "first_tokens [] = Inr []"
| "first_tokens (line # rest) =
     (if py_strip line \<noteq> []
      then case py_split line of
             [] \<Rightarrow> Inl IndexError
           | tok # toks \<Rightarrow>
               (case first_tokens rest of
                  Inl e \<Rightarrow> Inl e
                | Inr models \<Rightarrow> Inr (tok # models))
      else first_tokens rest)"

text \<open>
  The text of a list of names in an f-string, exact for names without quote, backslash or
  unprintable character.
\<close>

fun comma_join :: "string list \<Rightarrow> string" where
  "comma_join [] = []"
| "comma_join [x] = x"
| "comma_join (x # y # ys) = x @ '', '' @ comma_join (y # ys)"

definition py_repr :: "string list \<Rightarrow> string" where
  "py_repr models = ''['' @ comma_join (map (\<lambda>m. quote @ m @ quote) models) @ '']''"

definition list_llm_models :: "env \<Rightarrow> state \<Rightarrow> exn + (string list \<times> state)" where
  "list_llm_models env s =
     (let s1 = py_print ''Fetching available Llama models...'' s;
          argv = [''ollama'', ''list''];
          s2 = s1\<lparr>calls := calls s1 @ [(argv, [])]\<rparr>
      in case ollama env (length (calls s1)) argv [] of
           Raised e \<Rightarrow>
             if e = FileNotFoundError
             then Inr ([], py_print ''Ollama CLI not found. Ensure it is installed and available in your PATH.'' s2)
             else Inl e
         | Completed returncode out err \<Rightarrow>
             if returncode \<noteq> 0
             then Inr ([], py_print (''Error listing models: '' @ err) s2)
             else
               (case first_tokens (py_splitlines out) of
                  Inl e \<Rightarrow> Inl e
                | Inr models \<Rightarrow>
                    Inr (models, py_print (''Available models: '' @ py_repr models) s2)))"

subsection \<open>What the specification says a page contributes\<close>

text \<open>
  The block of one page in the results file, in the words of the specification: the
  captured error text on a non-zero exit status, the standard output and a newline on
  success, an inline error line when the runner cannot be located.
\<close>

fun result_block :: "string \<Rightarrow> run_result \<Rightarrow> string" where
  "result_block page_filename (Completed returncode out err) =
     (if returncode \<noteq> 0 then ''Error processing '' @ page_filename @ '': '' @ err @ newline
      else out @ newline)"
| "result_block page_filename (Raised e) =
     (if e = FileNotFoundError
      then ''Error processing '' @ page_filename @ '': Ollama CLI not found'' @ newline
      else [])"

definition handled :: "run_result \<Rightarrow> bool" where
  "handled r = (case r of Completed returncode out err \<Rightarrow> True | Raised e \<Rightarrow> e = FileNotFoundError)"

subsection \<open>Auxiliary notions for the proofs\<close>

text \<open>
  The file system \<open>fs'\<close> differs from \<open>fsys\<close> only by new directories on the way to \<open>p\<close>:
  what \<open>os.makedirs\<close> may do.
\<close>

definition created :: "filesystem \<Rightarrow> filesystem \<Rightarrow> path \<Rightarrow> bool" where
  "created fsys fs' p =
     (\<forall>q. map_of fs' q \<noteq> map_of fsys q \<longrightarrow>
          map_of fsys q = None \<and> map_of fs' q = Some Dir \<and> (\<exists>k. q = take k p))"

text \<open>
  The two halves of \<open>makedirs\<close>: making the parent when it is missing, then the
  directory itself.
\<close>

definition makedirs_parent :: "env \<Rightarrow> path \<Rightarrow> filesystem \<Rightarrow> exn + filesystem" where
  "makedirs_parent env p fsys =
     (if butlast p \<noteq> [] \<and> map_of fsys (butlast p) = None
      then makedirs env (butlast p) fsys else Inr fsys)"

definition makedirs_last :: "env \<Rightarrow> path \<Rightarrow> filesystem \<Rightarrow> exn + filesystem" where
  "makedirs_last env p fs1 =
     (case map_of fs1 p of
        Some Dir \<Rightarrow> Inr fs1
      | Some (File c) \<Rightarrow> Inl FileExistsError
      | None \<Rightarrow>
          if \<not> isdir fs1 (butlast p) then Inl NotADirectoryError
          else if \<not> writable env p then Inl PermissionError
          else Inr (fs1 @ [(p, Dir)]))"

text \<open>
  Writing a file at \<open>p\<close> raises nothing: no directory is in the way, the parent is a
  directory and the path can be written.
\<close>

definition saves :: "env \<Rightarrow> filesystem \<Rightarrow> path \<Rightarrow> bool" where
  "saves env fsys p = (map_of fsys p \<noteq> Some Dir \<and> isdir fsys (butlast p) \<and> writable env p)"

text \<open>
  The page renders at 300 dpi and its PNG can be saved.
\<close>

definition page_ok :: "env \<Rightarrow> filesystem \<Rightarrow> path \<Rightarrow> string \<Rightarrow> nat \<Rightarrow> page \<Rightarrow> bool" where
  "page_ok env fsys output_folder pdf_name page_number page =
     (get_pixmap env page 300 \<noteq> None
      \<and> saves env fsys (path_join output_folder (page_png pdf_name page_number)))"

text \<open>
  What the rasterisation has done when it has got through the first \<open>k\<close> pages: the runner
  was not invoked, the page files 1 to \<open>k\<close> hold the renderings, and no other path has
  changed.
\<close>

definition pages_written :: "env \<Rightarrow> path \<Rightarrow> string \<Rightarrow> page list \<Rightarrow> nat \<Rightarrow> state \<Rightarrow> state \<Rightarrow> bool" where
  "pages_written env output_folder pdf_name pages k s s' =
     (calls s' = calls s
      \<and> (\<forall>j<k. map_of (fs s') (path_join output_folder (page_png pdf_name j))
                   = Some (File (Bytes (the (get_pixmap env (pages ! j) 300)))))
      \<and> (\<forall>q. (\<forall>j<k. q \<noteq> path_join output_folder (page_png pdf_name j))
                   \<longrightarrow> map_of (fs s') q = map_of (fs s) q))"

text \<open>
  The first console line of \<open>convert_pdf_pages_to_png\<close>.
\<close>

definition converting_line :: "env \<Rightarrow> path \<Rightarrow> string" where
  "converting_line env pdf_path =
     ''Converting PDF '' @ quote @ path_text (os_sep env) pdf_path @ quote @ '' into PNGs...''"

text \<open>Whether every step of the rasterisation goes through, read off the state before it.\<close>

definition rasterizes :: "env \<Rightarrow> filesystem \<Rightarrow> path \<Rightarrow> path \<Rightarrow> bool" where
  "rasterizes env fsys pdf_path output_folder =
     (case fitz_open fsys pdf_path of
        Inl e \<Rightarrow> False
      | Inr pages \<Rightarrow>
          list_all (\<lambda>(j, page). page_ok env fsys output_folder (splitext_root (basename pdf_path)) j page)
            (enumerate 0 pages))"

text \<open>
  What the runner gives for the PNG entries \<open>pngs\<close>, one invocation after the other, when
  \<open>k\<close> invocations came before.
\<close>

definition runner_outcomes :: "env \<Rightarrow> string \<Rightarrow> string \<Rightarrow> path \<Rightarrow> nat \<Rightarrow> string list \<Rightarrow> run_result list" where
  "runner_outcomes env model prompt pdf_output_folder k pngs =
     map (\<lambda>(i, page_filename).
            ollama env i [''ollama'', ''run'', model]
              (runner_request env prompt (path_join pdf_output_folder page_filename)))
       (enumerate k pngs)"

text \<open>
  The invocations for the PNG entries \<open>pngs\<close>: arguments and standard input.
\<close>

definition page_requests :: "env \<Rightarrow> string \<Rightarrow> string \<Rightarrow> path \<Rightarrow> string list \<Rightarrow> (string list \<times> string) list" where
  "page_requests env model prompt pdf_output_folder pngs =
     map (\<lambda>page_filename. ([''ollama'', ''run'', model],
                             runner_request env prompt (path_join pdf_output_folder page_filename)))
       pngs"

text \<open>The order in which the page loop meets the PNG entries of a folder.\<close>

definition png_listing :: "filesystem \<Rightarrow> path \<Rightarrow> string list" where
  "png_listing fsys d = filter (\<lambda>n. endswith n ''.png'') (sort (entries fsys d))"

text \<open>
  The folder and the results file of a document, as lines 101 to 106 build them, and the
  two console lines of the loop body.
\<close>

definition pdf_folder :: "path \<Rightarrow> string \<Rightarrow> path" where
  "pdf_folder output_folder filename = path_join output_folder (splitext_root filename)"

definition results_file :: "path \<Rightarrow> string \<Rightarrow> path" where
  "results_file output_folder filename =
     path_join (pdf_folder output_folder filename) (splitext_root filename @ ''_results.txt'')"

definition finished_line :: "string \<Rightarrow> string" where
  "finished_line filename = ''Finished processing PDF: '' @ filename"

definition processing_line :: "string \<Rightarrow> string" where
  "processing_line filename = ''Processing PDF: '' @ filename"


text \<open>
  The output folder of line 94.
\<close>

definition output_root :: "path \<Rightarrow> path" where
  "output_root folder_path = path_join folder_path ''converted_pngs''"

subsection \<open>Concrete runs\<close>

text \<open>
  A small world to run the model on: every path can be written, a page renders to its
  name and the resolution unless it is \<open>blank\<close>, and the runner answers in turn with its
  input, with exit status 1 and with not being found.
\<close>

definition demo_env :: env where
  "demo_env =
     \<lparr>os_sep = ''/'',
      writable = (\<lambda>p. True),
      get_pixmap = (\<lambda>page dpi. if page = ''blank'' then None else Some (page @ ''@'' @ str_nat dpi)),
      ollama = (\<lambda>i argv input.
                  if argv = [''ollama'', ''list'']
                  then Completed 0 (''NAME ID'' @ newline @ ''llava:7b 8dd3'' @ newline @ '' '' @ newline
                                      @ ''  phi3  4f22'') []
                  else if i mod 3 = 0 then Completed 0 input []
                  else if i mod 3 = 1 then Completed 1 [] ''boom''
                  else Raised FileNotFoundError)\<rparr>"

definition demo_state :: state where
  "demo_state =
     \<lparr>fs = [([''d''], Dir),
            ([''d'', ''a.pdf''], File (Pdf [''p1'', ''p2'', ''p3''])),
            ([''d'', ''notes.txt''], File (Bytes ''hello'')),
            ([''d'', ''bad.pdf''], File (Pdf [''q1'', ''blank'', ''q3'']))],
      calls = [],
      console = []\<rparr>"

text \<open>A folder that an earlier run has already filled, for a document that now has one page.\<close>

definition rerun_state :: state where
  "rerun_state =
     \<lparr>fs = [([''d''], Dir),
            ([''d'', ''a.pdf''], File (Pdf [''p1''])),
            ([''d'', ''converted_pngs''], Dir),
            ([''d'', ''converted_pngs'', ''a''], Dir),
            ([''d'', ''converted_pngs'', ''a'', ''a_page_1.png''], File (Bytes ''old1'')),
            ([''d'', ''converted_pngs'', ''a'', ''a_page_2.png''], File (Bytes ''old2'')),
            ([''d'', ''converted_pngs'', ''a'', ''a_results.txt''], File (Bytes ''OLD''))],
      calls = [],
      console = []\<rparr>"



section \<open>Lemmas\<close>

lemma digit_inj: "a < 10 \<Longrightarrow> b < 10 \<Longrightarrow> ''0123456789'' ! a = ''0123456789'' ! b \<Longrightarrow> a = b"
proof -
  assume a: "a < 10" and b: "b < 10" and e: "''0123456789'' ! a = ''0123456789'' ! b"
  have d: "distinct ''0123456789''" by simp
  from a b have "a < length ''0123456789''" "b < length ''0123456789''" by simp_all
  with d e show ?thesis by (simp only: nth_eq_iff_index_eq)
qed

lemma str_nat_nonempty: "str_nat n \<noteq> []"
  by (subst str_nat.simps) simp

lemma str_nat_inj: "str_nat n = str_nat m \<Longrightarrow> n = m"
proof (induction n arbitrary: m rule: str_nat.induct)
  case (1 n)
  show ?case
  proof (cases "n < 10")
    case True
    note n = this
    show ?thesis
    proof (cases "m < 10")
      case True
      with n "1.prems" show ?thesis
        by (simp add: str_nat.simps[of n] str_nat.simps[of m] digit_inj)
    next
      case False
      with n "1.prems" str_nat_nonempty[of "m div 10"] show ?thesis
        by (simp add: str_nat.simps[of n] str_nat.simps[of m])
    qed
  next
    case False
    note n = this
    show ?thesis
    proof (cases "m < 10")
      case True
      with n "1.prems" str_nat_nonempty[of "n div 10"] show ?thesis
        by (simp add: str_nat.simps[of n] str_nat.simps[of m])
    next
      case False
      with n "1.prems" have e: "str_nat (n div 10) = str_nat (m div 10)"
        and d: "''0123456789'' ! (n mod 10) = ''0123456789'' ! (m mod 10)"
        by (simp_all add: str_nat.simps[of n] str_nat.simps[of m])
      from "1.IH"[OF n e] have "n div 10 = m div 10" .
      moreover from d have "n mod 10 = m mod 10" by (intro digit_inj) simp_all
      ultimately show ?thesis by (metis div_mult_mod_eq)
    qed
  qed
qed

lemma page_png_inj: "page_png stem i = page_png stem j \<Longrightarrow> i = j"
  using str_nat_inj[of "i + 1" "j + 1"] by (simp add: page_png_def)

lemma endswith_append [simp]: "endswith (xs @ suf) suf"
  by (simp add: endswith_def)

lemma endswith_page_png: "endswith (page_png stem i) ''.png''"
  unfolding page_png_def using endswith_append[of "stem @ ''_page_'' @ str_nat (i + 1)" "''.png''"] by simp

lemma endswith_last: "endswith s suf \<Longrightarrow> suf \<noteq> [] \<Longrightarrow> last s = last suf"
  by (metis endswith_def append_take_drop_id last_appendR)

lemma results_not_png: "\<not> endswith (stem @ ''_results.txt'') ''.png''"
proof
  assume "endswith (stem @ ''_results.txt'') ''.png''"
  from endswith_last[OF this] show False by simp
qed

lemma results_ne_page_png: "stem @ ''_results.txt'' \<noteq> page_png stem' i"
  using results_not_png[of stem] endswith_page_png[of stem' i] by metis

lemma entries_iff: "n \<in> set (entries fsys d) \<longleftrightarrow> map_of fsys (d @ [n]) \<noteq> None"
proof -
  have "n \<in> set (entries fsys d) \<longleftrightarrow> (\<exists>q \<in> fst ` set fsys. q \<noteq> [] \<and> butlast q = d \<and> last q = n)"
    by (auto simp: entries_def)
  also have "\<dots> \<longleftrightarrow> d @ [n] \<in> fst ` set fsys"
    by (metis append_butlast_last_id butlast_snoc last_snoc snoc_eq_iff_butlast)
  also have "\<dots> \<longleftrightarrow> map_of fsys (d @ [n]) \<noteq> None"
    by (simp add: map_of_eq_None_iff)
  finally show ?thesis .
qed

lemma distinct_entries [simp]: "distinct (entries fsys d)"
  by (simp add: entries_def)

lemma write_file_Inr:
  "write_file env p c fsys = Inr fs' \<Longrightarrow>
     map_of fs' = (map_of fsys)(p \<mapsto> File c) \<and> map_of fsys p \<noteq> Some Dir \<and> p \<noteq> []
     \<and> isdir fsys (butlast p) \<and> writable env p"
  by (auto simp: write_file_def update_conv' split: if_splits)

lemma write_file_ok:
  "p \<noteq> [] \<Longrightarrow> map_of fsys p \<noteq> Some Dir \<Longrightarrow> isdir fsys (butlast p) \<Longrightarrow> writable env p \<Longrightarrow>
     write_file env p c fsys = Inr (AList.update p (File c) fsys)"
  by (simp add: write_file_def)

lemma isdir_update_File:
  "map_of fsys p \<noteq> Some Dir \<Longrightarrow> isdir (AList.update p (File c) fsys) q = isdir fsys q"
  by (auto simp: isdir_def update_conv')

lemma map_of_snoc_new:
  "map_of fsys p = None \<Longrightarrow> map_of (fsys @ [(p, v)]) = (map_of fsys)(p \<mapsto> v)"
  by (rule ext) (auto simp: map_add_def split: option.splits)

lemma created_refl: "created fsys fsys p"
  by (simp add: created_def)

lemma created_butlast: "created fsys fs' (butlast p) \<Longrightarrow> created fsys fs' p"
  unfolding created_def
proof (intro allI impI)
  fix q assume a: "\<forall>q. map_of fs' q \<noteq> map_of fsys q \<longrightarrow>
          map_of fsys q = None \<and> map_of fs' q = Some Dir \<and> (\<exists>k. q = take k (butlast p))"
    and b: "map_of fs' q \<noteq> map_of fsys q"
  from a b obtain k where k: "map_of fsys q = None" "map_of fs' q = Some Dir" "q = take k (butlast p)"
    by blast
  have "take k (butlast p) = take (min k (length p - 1)) p"
    by (simp add: butlast_conv_take min.commute)
  with k show "map_of fsys q = None \<and> map_of fs' q = Some Dir \<and> (\<exists>k. q = take k p)" by metis
qed

lemma created_snoc:
  assumes "created fsys fs1 p" "map_of fs1 p = None"
  shows "created fsys (fs1 @ [(p, Dir)]) p"
  unfolding created_def
proof (intro allI impI)
  fix q assume b: "map_of (fs1 @ [(p, Dir)]) q \<noteq> map_of fsys q"
  have m: "map_of (fs1 @ [(p, Dir)]) = (map_of fs1)(p \<mapsto> Dir)"
    using assms(2) by (rule map_of_snoc_new)
  show "map_of fsys q = None \<and> map_of (fs1 @ [(p, Dir)]) q = Some Dir \<and> (\<exists>k. q = take k p)"
  proof (cases "q = p")
    case True
    have "map_of fsys p = None"
      using assms unfolding created_def by (metis option.distinct(1))
    moreover have "p = take (length p) p" by simp
    ultimately show ?thesis using True m by (metis fun_upd_same)
  next
    case False
    with b m have "map_of fs1 q \<noteq> map_of fsys q" by simp
    with assms(1) False m show ?thesis unfolding created_def by simp
  qed
qed

lemma makedirs_Nil: "makedirs env [] fsys = Inr fsys"
  by (subst makedirs.simps) simp

lemma makedirs_unfold:
  "p \<noteq> [] \<Longrightarrow> makedirs env p fsys =
     (case makedirs_parent env p fsys of Inl e \<Rightarrow> Inl e | Inr fs1 \<Rightarrow> makedirs_last env p fs1)"
  unfolding makedirs_parent_def makedirs_last_def
  by (subst makedirs.simps) (simp only: if_False)

lemma makedirs_last_Inr:
  assumes "makedirs_last env p fs1 = Inr fs'" "created fsys fs1 p"
  shows "isdir fs' p \<and> created fsys fs' p"
proof (cases "map_of fs1 p")
  case None
  with assms(1) have "fs' = fs1 @ [(p, Dir)]"
    by (simp add: makedirs_last_def split: if_splits)
  moreover from None have "map_of (fs1 @ [(p, Dir)]) = (map_of fs1)(p \<mapsto> Dir)"
    by (rule map_of_snoc_new)
  ultimately show ?thesis using None assms(2)
    by (simp add: created_snoc isdir_def)
next
  case (Some nd)
  with assms(1) have "nd = Dir \<and> fs' = fs1"
    by (cases nd) (simp_all add: makedirs_last_def)
  with Some assms(2) show ?thesis by (simp add: isdir_def)
qed

lemma makedirs_Inr:
  "makedirs env p fsys = Inr fs' \<Longrightarrow> isdir fs' p \<and> created fsys fs' p"
proof (induction env p fsys arbitrary: fs' rule: makedirs.induct)
  case (1 env p fsys)
  show ?case
  proof (cases "p = []")
    case True
    with "1.prems" have "fs' = fsys" by (simp add: makedirs_Nil)
    with True show ?thesis by (simp add: isdir_def created_refl)
  next
    case False
    note ne = this
    from "1.prems" obtain fs1 where r: "makedirs_parent env p fsys = Inr fs1"
      and rest: "makedirs_last env p fs1 = Inr fs'"
      by (cases "makedirs_parent env p fsys") (simp_all add: makedirs_unfold[OF ne])
    have c1: "created fsys fs1 p"
    proof (cases "butlast p \<noteq> [] \<and> map_of fsys (butlast p) = None")
      case True
      with r have "makedirs env (butlast p) fsys = Inr fs1" by (simp add: makedirs_parent_def)
      from "1.IH"[OF ne True this] show ?thesis by (simp add: created_butlast)
    next
      case False
      with r have "fs1 = fsys" by (simp add: makedirs_parent_def)
      then show ?thesis by (simp add: created_refl)
    qed
    from makedirs_last_Inr[OF rest c1] show ?thesis .
  qed
qed

lemma take_eq_snoc: "take k d = d @ [n] \<Longrightarrow> False"
proof -
  assume "take k d = d @ [n]"
  then have "length (take k d) = length (d @ [n])" by simp
  then show False by simp
qed

lemma created_at:
  "created fsys fs' p \<Longrightarrow> map_of fs' q \<noteq> map_of fsys q \<Longrightarrow>
     map_of fsys q = None \<and> map_of fs' q = Some Dir \<and> (\<exists>k. q = take k p)"
  unfolding created_def by (drule spec[of _ q]) simp

lemma created_keeps:
  "created fsys fs' p \<Longrightarrow> map_of fsys q \<noteq> None \<Longrightarrow> map_of fs' q = map_of fsys q"
  using created_at[of fsys fs' p q] by (cases "map_of fs' q = map_of fsys q") simp_all

lemma created_below:
  "created fsys fs' d \<Longrightarrow> map_of fs' (d @ [n]) = map_of fsys (d @ [n])"
proof (rule ccontr)
  assume c: "created fsys fs' d" and "map_of fs' (d @ [n]) \<noteq> map_of fsys (d @ [n])"
  from created_at[OF this] obtain k where "d @ [n] = take k d" by auto
  then show False using take_eq_snoc[of k d n] by simp
qed

lemma created_isdir: "created fsys fs' p \<Longrightarrow> isdir fsys q \<Longrightarrow> isdir fs' q"
proof -
  assume c: "created fsys fs' p" and d: "isdir fsys q"
  show "isdir fs' q"
  proof (cases "q = []")
    case True
    then show ?thesis by (simp add: isdir_def)
  next
    case False
    with d have "map_of fsys q = Some Dir" by (simp add: isdir_def)
    with created_keeps[OF c, of q] show ?thesis by (simp add: isdir_def)
  qed
qed

lemma py_print_simps [simp]:
  "fs (py_print l s) = fs s" "calls (py_print l s) = calls s"
  "console (py_print l s) = console s @ [l]"
  by (simp_all add: py_print_def)

lemma write_file_saves:
  "p \<noteq> [] \<Longrightarrow> write_file env p c fsys =
     (if saves env fsys p then Inr (AList.update p (File c) fsys)
      else Inl (if map_of fsys p = Some Dir then IsADirectoryError
                else if \<not> isdir fsys (butlast p) then FileNotFoundError else PermissionError))"
  by (simp add: write_file_def saves_def)

lemma saves_update:
  "map_of fsys p \<noteq> Some Dir \<Longrightarrow> saves env (AList.update p (File c) fsys) q = saves env fsys q"
  by (auto simp: saves_def isdir_def update_conv')

lemma render_pages_step_ok:
  assumes "page_ok env (fs s) out stem i pg"
  shows "render_pages env out stem n (pg # rest) i s =
           render_pages env out stem n rest (Suc i)
             ((py_print (''Rendering page '' @ str_nat (i + 1) @ '' of '' @ str_nat n @ ''...'') s)
                \<lparr>fs := AList.update (out @ [page_png stem i])
                         (File (Bytes (the (get_pixmap env pg 300)))) (fs s)\<rparr>)"
  using assms
  by (auto simp: page_ok_def path_join_def write_file_saves Let_def)

lemma render_pages_step_fail:
  assumes "\<not> page_ok env (fs s) out stem i pg"
  shows "\<exists>e. render_pages env out stem n (pg # rest) i s =
           Inl (e, py_print (''Rendering page '' @ str_nat (i + 1) @ '' of '' @ str_nat n @ ''...'') s)"
  using assms
  by (auto simp: page_ok_def path_join_def write_file_saves Let_def split: option.splits)

lemma render_pages_prefix:
  assumes "k \<le> length pages"
    and "\<forall>j<k. page_ok env (fs s) out stem (i + j) (pages ! j)"
  shows "\<exists>sk. render_pages env out stem n pages i s
                = render_pages env out stem n (drop k pages) (i + k) sk
            \<and> calls sk = calls s
            \<and> (\<forall>q. saves env (fs sk) q = saves env (fs s) q)
            \<and> (\<forall>j<k. map_of (fs sk) (out @ [page_png stem (i + j)])
                        = Some (File (Bytes (the (get_pixmap env (pages ! j) 300)))))
            \<and> (\<forall>q. (\<forall>j<k. q \<noteq> out @ [page_png stem (i + j)])
                        \<longrightarrow> map_of (fs sk) q = map_of (fs s) q)"
  using assms
proof (induction k arbitrary: pages i s)
  case 0
  show ?case by (rule exI[of _ s]) simp
next
  case (Suc k)
  then obtain pg rest where pages: "pages = pg # rest" by (cases pages) auto
  let ?t = "out @ [page_png stem i]"
  let ?s1 = "(py_print (''Rendering page '' @ str_nat (i + 1) @ '' of '' @ str_nat n @ ''...'') s)
                \<lparr>fs := AList.update ?t (File (Bytes (the (get_pixmap env pg 300)))) (fs s)\<rparr>"
  from Suc.prems(2) pages have ok0: "page_ok env (fs s) out stem i pg" by force
  then have nd: "map_of (fs s) ?t \<noteq> Some Dir"
    by (simp add: page_ok_def saves_def path_join_def)
  have sv: "\<And>q. saves env (fs ?s1) q = saves env (fs s) q"
    using nd by (simp add: saves_update)
  have step: "render_pages env out stem n pages i s = render_pages env out stem n rest (Suc i) ?s1"
    unfolding pages by (rule render_pages_step_ok[OF ok0])
  have k: "k \<le> length rest" using Suc.prems(1) pages by simp
  have oks: "\<forall>j<k. page_ok env (fs ?s1) out stem (Suc i + j) (rest ! j)"
  proof (intro allI impI)
    fix j assume "j < k"
    then have "Suc j < Suc k" by simp
    with Suc.prems(2) have "page_ok env (fs s) out stem (i + Suc j) (pages ! Suc j)"
      by blast
    then show "page_ok env (fs ?s1) out stem (Suc i + j) (rest ! j)"
      using sv by (simp add: page_ok_def pages)
  qed
  from Suc.IH[OF k oks] obtain sk where
    r: "render_pages env out stem n rest (Suc i) ?s1
          = render_pages env out stem n (drop k rest) (Suc i + k) sk"
    and c: "calls sk = calls ?s1"
    and s: "\<forall>q. saves env (fs sk) q = saves env (fs ?s1) q"
    and w: "\<forall>j<k. map_of (fs sk) (out @ [page_png stem (Suc i + j)])
                        = Some (File (Bytes (the (get_pixmap env (rest ! j) 300))))"
    and f: "\<forall>q. (\<forall>j<k. q \<noteq> out @ [page_png stem (Suc i + j)])
                        \<longrightarrow> map_of (fs sk) q = map_of (fs ?s1) q"
    by blast
  have t_other: "\<forall>j<k. ?t \<noteq> out @ [page_png stem (Suc i + j)]"
    using page_png_inj[of stem i] by fastforce
  have w0: "map_of (fs sk) ?t = Some (File (Bytes (the (get_pixmap env pg 300))))"
    using f t_other by (simp add: update_conv')
  show ?case
  proof (intro exI[of _ sk] conjI allI impI)
    show "render_pages env out stem n pages i s
            = render_pages env out stem n (drop (Suc k) pages) (i + Suc k) sk"
      using step r by (simp add: pages)
    show "calls sk = calls s" using c by simp
    show "\<And>q. saves env (fs sk) q = saves env (fs s) q" using s sv by simp
  next
    fix j assume j: "j < Suc k"
    show "map_of (fs sk) (out @ [page_png stem (i + j)])
            = Some (File (Bytes (the (get_pixmap env (pages ! j) 300))))"
    proof (cases j)
      case 0
      with w0 pages show ?thesis by simp
    next
      case (Suc j')
      with j w pages show ?thesis by simp
    qed
  next
    fix q assume q: "\<forall>j<Suc k. q \<noteq> out @ [page_png stem (i + j)]"
    then have q0: "q \<noteq> ?t" by force
    have "\<forall>j<k. q \<noteq> out @ [page_png stem (Suc i + j)]"
    proof (intro allI impI)
      fix j assume "j < k"
      then have "Suc j < Suc k" by simp
      with q have "q \<noteq> out @ [page_png stem (i + Suc j)]" by blast
      then show "q \<noteq> out @ [page_png stem (Suc i + j)]" by simp
    qed
    with f have "map_of (fs sk) q = map_of (fs ?s1) q" by blast
    with q0 show "map_of (fs sk) q = map_of (fs s) q" by (simp add: update_conv')
  qed
qed

lemma pages_written_print:
  "pages_written env out stem pages k s s' \<Longrightarrow> pages_written env out stem pages k s (py_print l s')"
  by (simp add: pages_written_def)

lemma pages_written_print0:
  "pages_written env out stem pages k (py_print l s) s' \<Longrightarrow> pages_written env out stem pages k s s'"
  by (simp add: pages_written_def)

lemma pages_written_node:
  assumes "pages_written env out stem pages k s s'"
  shows "map_of (fs s') q = map_of (fs s) q
         \<or> (\<exists>j<k. q = path_join out (page_png stem j)
                  \<and> map_of (fs s') q = Some (File (Bytes (the (get_pixmap env (pages ! j) 300)))))"
proof (cases "\<exists>j<k. q = path_join out (page_png stem j)")
  case True
  then obtain j where "j < k" "q = path_join out (page_png stem j)" by blast
  with assms show ?thesis unfolding pages_written_def by blast
next
  case False
  with assms have "map_of (fs s') q = map_of (fs s) q"
    unfolding pages_written_def by blast
  then show ?thesis by simp
qed

lemma render_pages_written:
  assumes "k \<le> length pages"
    and "\<forall>j<k. page_ok env (fs s) out stem j (pages ! j)"
  shows "\<exists>sk. render_pages env out stem n pages 0 s = render_pages env out stem n (drop k pages) k sk
            \<and> pages_written env out stem pages k s sk
            \<and> (\<forall>q. saves env (fs sk) q = saves env (fs s) q)"
proof -
  from assms(2) have "\<forall>j<k. page_ok env (fs s) out stem (0 + j) (pages ! j)" by simp
  from render_pages_prefix[OF assms(1) this, of n] obtain sk where
    "render_pages env out stem n pages 0 s = render_pages env out stem n (drop k pages) (0 + k) sk"
    "calls sk = calls s" "\<forall>q. saves env (fs sk) q = saves env (fs s) q"
    "\<forall>j<k. map_of (fs sk) (out @ [page_png stem (0 + j)])
                        = Some (File (Bytes (the (get_pixmap env (pages ! j) 300))))"
    "\<forall>q. (\<forall>j<k. q \<noteq> out @ [page_png stem (0 + j)]) \<longrightarrow> map_of (fs sk) q = map_of (fs s) q"
    by blast
  then show ?thesis
    by (intro exI[of _ sk]) (simp add: pages_written_def path_join_def)
qed

lemma convert_open_fails:
  assumes "fitz_open (fs s) pdf_path = Inl e"
  shows "convert_pdf_pages_to_png env pdf_path out s
           = (False, py_print (convert_error_line env pdf_path e)
                       (py_print (converting_line env pdf_path) s))"
  using assms by (simp add: convert_pdf_pages_to_png_def converting_line_def)

lemma convert_all_ok:
  assumes "fitz_open (fs s) pdf_path = Inr pages"
    and "\<forall>j<length pages. page_ok env (fs s) out (splitext_root (basename pdf_path)) j (pages ! j)"
  shows "\<exists>s'. convert_pdf_pages_to_png env pdf_path out s = (True, s')
            \<and> pages_written env out (splitext_root (basename pdf_path)) pages (length pages) s s'
            \<and> (\<forall>q. saves env (fs s') q = saves env (fs s) q)"
proof -
  let ?s1 = "py_print (converting_line env pdf_path) s"
  let ?stem = "splitext_root (basename pdf_path)"
  from assms(2) have "\<forall>j<length pages. page_ok env (fs ?s1) out ?stem j (pages ! j)" by simp
  from render_pages_written[OF le_refl this, of "length pages"] obtain sk where
    r: "render_pages env out ?stem (length pages) pages 0 ?s1 = Inr sk"
    and w: "pages_written env out ?stem pages (length pages) ?s1 sk"
    and sv: "\<forall>q. saves env (fs sk) q = saves env (fs ?s1) q"
    by auto
  let ?s' = "py_print (''PDF '' @ quote @ path_text (os_sep env) pdf_path @ quote
                                       @ '' successfully converted to PNGs.'') sk"
  have "convert_pdf_pages_to_png env pdf_path out s = (True, ?s')"
    using assms(1) r by (simp add: convert_pdf_pages_to_png_def converting_line_def)
  moreover have "pages_written env out ?stem pages (length pages) s ?s'"
    by (rule pages_written_print, rule pages_written_print0, rule w)
  moreover have "\<forall>q. saves env (fs ?s') q = saves env (fs s) q" using sv by simp
  ultimately show ?thesis by blast
qed

lemma convert_page_fails:
  assumes "fitz_open (fs s) pdf_path = Inr pages"
    and "k < length pages"
    and "\<forall>j<k. page_ok env (fs s) out (splitext_root (basename pdf_path)) j (pages ! j)"
    and "\<not> page_ok env (fs s) out (splitext_root (basename pdf_path)) k (pages ! k)"
  shows "\<exists>s' e. convert_pdf_pages_to_png env pdf_path out s = (False, s')
            \<and> pages_written env out (splitext_root (basename pdf_path)) pages k s s'
            \<and> (\<forall>q. saves env (fs s') q = saves env (fs s) q)
            \<and> last (console s') = convert_error_line env pdf_path e"
proof -
  let ?s1 = "py_print (converting_line env pdf_path) s"
  let ?stem = "splitext_root (basename pdf_path)"
  let ?n = "length pages"
  from assms(3) have oks: "\<forall>j<k. page_ok env (fs ?s1) out ?stem j (pages ! j)" by simp
  from assms(2) have kl: "k \<le> length pages" by simp
  from render_pages_written[OF kl oks, of ?n] obtain sk where
    r: "render_pages env out ?stem ?n pages 0 ?s1 = render_pages env out ?stem ?n (drop k pages) k sk"
    and w: "pages_written env out ?stem pages k ?s1 sk"
    and sv: "\<forall>q. saves env (fs sk) q = saves env (fs ?s1) q"
    by auto
  from assms(2) have d: "drop k pages = pages ! k # drop (Suc k) pages"
    by (simp add: Cons_nth_drop_Suc)
  have "\<not> page_ok env (fs sk) out ?stem k (pages ! k)"
    using assms(4) sv by (simp add: page_ok_def)
  from render_pages_step_fail[OF this, of ?n "drop (Suc k) pages"] obtain e where
    f: "render_pages env out ?stem ?n (drop k pages) k sk
          = Inl (e, py_print (''Rendering page '' @ str_nat (k + 1) @ '' of '' @ str_nat ?n @ ''...'') sk)"
    unfolding d by blast
  let ?s2 = "py_print (''Rendering page '' @ str_nat (k + 1) @ '' of '' @ str_nat ?n @ ''...'') sk"
  let ?s' = "py_print (convert_error_line env pdf_path e) ?s2"
  have "convert_pdf_pages_to_png env pdf_path out s = (False, ?s')"
    using assms(1) r f by (simp add: convert_pdf_pages_to_png_def converting_line_def)
  moreover have "pages_written env out ?stem pages k s ?s'"
    by (rule pages_written_print, rule pages_written_print, rule pages_written_print0, rule w)
  moreover have "\<forall>q. saves env (fs ?s') q = saves env (fs s) q" using sv by simp
  moreover have "last (console ?s') = convert_error_line env pdf_path e" by simp
  ultimately show ?thesis by blast
qed

lemma list_all_enumerate:
  "list_all (\<lambda>(j, x). P j x) (enumerate 0 xs) \<longleftrightarrow> (\<forall>j<length xs. P j (xs ! j))"
  by (simp add: list_all_length nth_enumerate_eq)

lemma rasterizes_iff:
  "rasterizes env fsys pdf_path out \<longleftrightarrow>
     (\<exists>pages. fitz_open fsys pdf_path = Inr pages
        \<and> (\<forall>j<length pages. page_ok env fsys out (splitext_root (basename pdf_path)) j (pages ! j)))"
  by (auto simp: rasterizes_def list_all_enumerate split: sum.splits)

lemma convert_success_iff:
  "fst (convert_pdf_pages_to_png env pdf_path out s) \<longleftrightarrow> rasterizes env (fs s) pdf_path out"
proof (cases "fitz_open (fs s) pdf_path")
  case (Inl e)
  then show ?thesis by (simp add: convert_open_fails rasterizes_iff)
next
  case (Inr pages)
  let ?P = "\<lambda>j. page_ok env (fs s) out (splitext_root (basename pdf_path)) j (pages ! j)"
  show ?thesis
  proof (cases "\<forall>j<length pages. ?P j")
    case True
    from convert_all_ok[OF Inr True] obtain s' where
      "convert_pdf_pages_to_png env pdf_path out s = (True, s')" by blast
    with True Inr show ?thesis by (simp add: rasterizes_iff)
  next
    case False
    then have ex: "\<exists>j. j < length pages \<and> \<not> ?P j" by blast
    define k where "k = (LEAST j. j < length pages \<and> \<not> ?P j)"
    have k: "k < length pages \<and> \<not> ?P k" unfolding k_def by (rule LeastI_ex[OF ex])
    have pre: "\<forall>i<k. ?P i"
    proof (intro allI impI)
      fix i assume "i < k"
      then have "\<not> (i < length pages \<and> \<not> ?P i)" unfolding k_def by (rule not_less_Least)
      moreover from \<open>i < k\<close> k have "i < length pages" by simp
      ultimately show "?P i" by simp
    qed
    from k have k1: "k < length pages" and k2: "\<not> ?P k" by simp_all
    from convert_page_fails[OF Inr k1 pre k2] obtain s' where
      "convert_pdf_pages_to_png env pdf_path out s = (False, s')" by blast
    then have "\<not> fst (convert_pdf_pages_to_png env pdf_path out s)" by simp
    with False Inr show ?thesis by (simp add: rasterizes_iff)
  qed
qed

lemma runner_outcomes_simps [simp]:
  "runner_outcomes env model prompt d k [] = []"
  "runner_outcomes env model prompt d k (n # ns) =
     ollama env k [''ollama'', ''run'', model] (runner_request env prompt (path_join d n))
       # runner_outcomes env model prompt d (Suc k) ns"
  by (simp_all add: runner_outcomes_def)

lemma length_runner_outcomes [simp]:
  "length (runner_outcomes env model prompt d k pngs) = length pngs"
  by (simp add: runner_outcomes_def)

lemma page_requests_simps [simp]:
  "page_requests env model prompt d [] = []"
  "page_requests env model prompt d (n # ns) =
     ([''ollama'', ''run'', model], runner_request env prompt (path_join d n))
       # page_requests env model prompt d ns"
  by (simp_all add: page_requests_def)

lemma process_page_handled:
  assumes "handled (ollama env (length (calls s)) [''ollama'', ''run'', model]
                      (runner_request env prompt (path_join d name)))"
  shows "\<exists>s'. process_page env model prompt d name buf s
              = Inr (buf @ result_block name
                             (ollama env (length (calls s)) [''ollama'', ''run'', model]
                                (runner_request env prompt (path_join d name))), s')
            \<and> fs s' = fs s
            \<and> calls s' = calls s @ [([''ollama'', ''run'', model],
                                      runner_request env prompt (path_join d name))]"
proof (cases "ollama env (length (calls s)) [''ollama'', ''run'', model]
                      (runner_request env prompt (path_join d name))")
  case (Completed rc out err)
  then show ?thesis by (simp add: process_page_def Let_def)
next
  case (Raised e)
  with assms have "e = FileNotFoundError" by (simp add: handled_def)
  with Raised show ?thesis by (simp add: process_page_def Let_def)
qed

lemma process_page_unhandled:
  assumes "\<not> handled (ollama env (length (calls s)) [''ollama'', ''run'', model]
                      (runner_request env prompt (path_join d name)))"
  shows "\<exists>e. process_page env model prompt d name buf s = Inl e"
proof (cases "ollama env (length (calls s)) [''ollama'', ''run'', model]
                      (runner_request env prompt (path_join d name))")
  case (Completed rc out err)
  with assms show ?thesis by (simp add: handled_def)
next
  case (Raised e)
  with assms have "e \<noteq> FileNotFoundError" by (simp add: handled_def)
  with Raised show ?thesis by (simp add: process_page_def Let_def)
qed

lemma extract_pages_Inr:
  assumes "extract_pages env model prompt d names buf s = Inr (buf', s')"
  shows "fs s' = fs s
       \<and> calls s' = calls s @ page_requests env model prompt d (filter (\<lambda>n. endswith n ''.png'') names)
       \<and> buf' = buf @ concat (map2 result_block (filter (\<lambda>n. endswith n ''.png'') names)
                                (runner_outcomes env model prompt d (length (calls s))
                                   (filter (\<lambda>n. endswith n ''.png'') names)))
       \<and> list_all handled (runner_outcomes env model prompt d (length (calls s))
                                   (filter (\<lambda>n. endswith n ''.png'') names))"
  using assms
proof (induction names arbitrary: buf s)
  case Nil
  then show ?case by simp
next
  case (Cons name rest)
  show ?case
  proof (cases "endswith name ''.png''")
    case False
    with Cons.prems have "extract_pages env model prompt d rest buf s = Inr (buf', s')" by simp
    from Cons.IH[OF this] False show ?thesis by simp
  next
    case True
    let ?r = "ollama env (length (calls s)) [''ollama'', ''run'', model]
                      (runner_request env prompt (path_join d name))"
    have h: "handled ?r"
    proof (rule ccontr)
      assume "\<not> handled ?r"
      from process_page_unhandled[OF this, of buf] obtain e where
        "process_page env model prompt d name buf s = Inl e" by blast
      with Cons.prems True show False by simp
    qed
    from process_page_handled[OF h, of buf] obtain s1 where
      p: "process_page env model prompt d name buf s = Inr (buf @ result_block name ?r, s1)"
      and f: "fs s1 = fs s"
      and c: "calls s1 = calls s @ [([''ollama'', ''run'', model],
                                      runner_request env prompt (path_join d name))]"
      by blast
    from Cons.prems True p
    have "extract_pages env model prompt d rest (buf @ result_block name ?r) s1 = Inr (buf', s')"
      by simp
    from Cons.IH[OF this] True h f c show ?thesis by simp
  qed
qed


lemma pages_written_refl: "pages_written env out stem pages 0 s s"
  by (simp add: pages_written_def)

lemma convert_effect:
  assumes "convert_pdf_pages_to_png env pdf_path out s = (ok, s')"
  shows "\<exists>pages k. pages_written env out (splitext_root (basename pdf_path)) pages k s s'
           \<and> (\<forall>q. saves env (fs s') q = saves env (fs s) q)
           \<and> (\<forall>j<k. page_ok env (fs s) out (splitext_root (basename pdf_path)) j (pages ! j))
           \<and> (ok \<longrightarrow> fitz_open (fs s) pdf_path = Inr pages \<and> k = length pages)"
proof (cases "fitz_open (fs s) pdf_path")
  case (Inl e)
  with assms have "ok = False" "fs s' = fs s" "calls s' = calls s"
    by (auto simp: convert_open_fails)
  then have "pages_written env out (splitext_root (basename pdf_path)) [] 0 s s'"
    by (simp add: pages_written_def)
  with \<open>ok = False\<close> \<open>fs s' = fs s\<close> show ?thesis by (intro exI[of _ "[]"] exI[of _ 0]) simp
next
  case (Inr pages)
  let ?P = "\<lambda>j. page_ok env (fs s) out (splitext_root (basename pdf_path)) j (pages ! j)"
  show ?thesis
  proof (cases "\<forall>j<length pages. ?P j")
    case True
    from convert_all_ok[OF Inr True] assms Inr True show ?thesis
      by (intro exI[of _ pages] exI[of _ "length pages"]) auto
  next
    case False
    then have ex: "\<exists>j. j < length pages \<and> \<not> ?P j" by blast
    define k where "k = (LEAST j. j < length pages \<and> \<not> ?P j)"
    have k: "k < length pages \<and> \<not> ?P k" unfolding k_def by (rule LeastI_ex[OF ex])
    have pre: "\<forall>i<k. ?P i"
    proof (intro allI impI)
      fix i assume "i < k"
      then have "\<not> (i < length pages \<and> \<not> ?P i)" unfolding k_def by (rule not_less_Least)
      moreover from \<open>i < k\<close> k have "i < length pages" by simp
      ultimately show "?P i" by simp
    qed
    from k have k1: "k < length pages" and k2: "\<not> ?P k" by simp_all
    from convert_page_fails[OF Inr k1 pre k2] assms pre show ?thesis
      by (intro exI[of _ pages] exI[of _ k]) auto
  qed
qed

lemma pages_written_dir:
  assumes "pages_written env out stem pages k s s'"
    and "\<forall>j<k. page_ok env (fs s) out stem j (pages ! j)"
  shows "(map_of (fs s') q = Some Dir) = (map_of (fs s) q = Some Dir)"
proof -
  from pages_written_node[OF assms(1), of q] show ?thesis
  proof
    assume "map_of (fs s') q = map_of (fs s) q"
    then show ?thesis by simp
  next
    assume "\<exists>j<k. q = path_join out (page_png stem j)
                  \<and> map_of (fs s') q = Some (File (Bytes (the (get_pixmap env (pages ! j) 300))))"
    then obtain j where j: "j < k" "q = path_join out (page_png stem j)"
      "map_of (fs s') q = Some (File (Bytes (the (get_pixmap env (pages ! j) 300))))" by blast
    with assms(2) have "map_of (fs s) q \<noteq> Some Dir" by (simp add: page_ok_def saves_def)
    with j show ?thesis by simp
  qed
qed

lemma pages_written_isdir:
  assumes "pages_written env out stem pages k s s'"
    and "\<forall>j<k. page_ok env (fs s) out stem j (pages ! j)"
  shows "isdir (fs s') q = isdir (fs s) q"
  using pages_written_dir[OF assms, of q] by (simp add: isdir_def)

lemma pages_written_keeps:
  assumes "pages_written env out stem pages k s s'" "map_of (fs s) q \<noteq> None"
  shows "map_of (fs s') q \<noteq> None"
  using pages_written_node[OF assms(1), of q] assms(2) by auto

lemma png_listing_eq:
  "png_listing fsys d = sorted_list_of_set {n \<in> set (entries fsys d). endswith n ''.png''}"
proof -
  have "png_listing fsys d = sort (filter (\<lambda>n. endswith n ''.png'') (entries fsys d))"
    by (simp add: png_listing_def filter_sort)
  also have "\<dots> = sorted_list_of_set (set (filter (\<lambda>n. endswith n ''.png'') (entries fsys d)))"
    by (simp add: sorted_list_of_set_sort_remdups distinct_remdups_id del: set_filter)
  finally show ?thesis by simp
qed

lemma png_listing_cong:
  assumes "\<And>n. endswith n ''.png'' \<Longrightarrow>
             (map_of fsA (d @ [n]) \<noteq> None) = (map_of fsB (d @ [n]) \<noteq> None)"
  shows "png_listing fsA d = png_listing fsB d"
proof -
  have "{n \<in> set (entries fsA d). endswith n ''.png''} = {n \<in> set (entries fsB d). endswith n ''.png''}"
    using assms by (auto simp: entries_iff)
  then show ?thesis by (simp add: png_listing_eq)
qed


lemma png_listing_update_results:
  "png_listing (AList.update (d @ [stem @ ''_results.txt'']) v fsys) d = png_listing fsys d"
proof (rule png_listing_cong)
  fix n assume "endswith n ''.png''"
  with results_not_png[of stem] have "n \<noteq> stem @ ''_results.txt''" by auto
  then show "(map_of (AList.update (d @ [stem @ ''_results.txt'']) v fsys) (d @ [n]) \<noteq> None)
              = (map_of fsys (d @ [n]) \<noteq> None)"
    by (simp add: update_conv')
qed

lemma basename_join [simp]: "basename (path_join p n) = n"
  by (simp add: basename_def path_join_def)

lemma process_pdf_makedirs_fails:
  "makedirs env (pdf_folder out fn) (fs s) = Inl e \<Longrightarrow>
     process_pdf env folder out model prompt fn s = Inl e"
  by (simp add: process_pdf_def pdf_folder_def Let_def)

lemma process_pdf_unfold:
  assumes "makedirs env (pdf_folder out fn) (fs s) = Inr fs1"
    and "convert_pdf_pages_to_png env (path_join folder fn) (pdf_folder out fn)
           (py_print (processing_line fn) (s\<lparr>fs := fs1\<rparr>)) = (ok, s3)"
  shows "process_pdf env folder out model prompt fn s =
     (if ok
      then case write_file env (results_file out fn) (Bytes []) (fs s3) of
             Inl e \<Rightarrow> Inl e
           | Inr fs4 \<Rightarrow>
               (case listdir fs4 (pdf_folder out fn) of
                  Inl e \<Rightarrow> Inl e
                | Inr names \<Rightarrow>
                    (case extract_pages env model prompt (pdf_folder out fn) (sort names) []
                            (s3\<lparr>fs := fs4\<rparr>) of
                       Inl e \<Rightarrow> Inl e
                     | Inr (buf, s5) \<Rightarrow>
                         Inr (py_print (finished_line fn)
                                (s5\<lparr>fs := AList.update (results_file out fn) (File (Bytes buf))
                                            (fs s5)\<rparr>))))
      else Inr (py_print (finished_line fn) s3))"
  using assms
  unfolding pdf_folder_def results_file_def finished_line_def processing_line_def
  by (simp add: process_pdf_def Let_def)

lemma process_pdf_skip:
  assumes "makedirs env (pdf_folder out fn) (fs s) = Inr fs1"
    and "convert_pdf_pages_to_png env (path_join folder fn) (pdf_folder out fn)
           (py_print (processing_line fn) (s\<lparr>fs := fs1\<rparr>)) = (False, s3)"
  shows "process_pdf env folder out model prompt fn s = Inr (py_print (finished_line fn) s3)"
  by (simp add: process_pdf_unfold[OF assms])

lemma process_pdf_extract:
  assumes mk: "makedirs env (pdf_folder out fn) (fs s) = Inr fs1"
    and cv: "convert_pdf_pages_to_png env (path_join folder fn) (pdf_folder out fn)
           (py_print (processing_line fn) (s\<lparr>fs := fs1\<rparr>)) = (True, s3)"
    and run: "process_pdf env folder out model prompt fn s = Inr s'"
  shows "map_of (fs s') = (map_of (fs s3))(results_file out fn \<mapsto>
            File (Bytes (concat (map2 result_block (png_listing (fs s3) (pdf_folder out fn))
                    (runner_outcomes env model prompt (pdf_folder out fn) (length (calls s3))
                       (png_listing (fs s3) (pdf_folder out fn)))))))
       \<and> calls s' = calls s3 @ page_requests env model prompt (pdf_folder out fn)
                                  (png_listing (fs s3) (pdf_folder out fn))
       \<and> list_all handled (runner_outcomes env model prompt (pdf_folder out fn) (length (calls s3))
                       (png_listing (fs s3) (pdf_folder out fn)))
       \<and> saves env (fs s3) (results_file out fn)"
proof -
  let ?d = "pdf_folder out fn" and ?r = "results_file out fn"
  note u = process_pdf_unfold[OF mk cv, of model prompt]
  from run u obtain fs4 where w: "write_file env ?r (Bytes []) (fs s3) = Inr fs4"
    by (cases "write_file env ?r (Bytes []) (fs s3)") simp_all
  from write_file_Inr[OF w] have sv: "saves env (fs s3) ?r" by (simp add: saves_def)
  have rne: "?r \<noteq> []" by (simp add: results_file_def path_join_def)
  from w sv rne have fs4: "fs4 = AList.update ?r (File (Bytes [])) (fs s3)"
    by (simp add: write_file_saves)
  from run u w obtain names where l: "listdir fs4 ?d = Inr names"
    by (cases "listdir fs4 ?d") simp_all
  then have names: "names = entries fs4 ?d" by (simp add: listdir_def split: if_splits)
  from run u w l obtain buf s5 where
    e: "extract_pages env model prompt ?d (sort names) [] (s3\<lparr>fs := fs4\<rparr>) = Inr (buf, s5)"
    by (cases "extract_pages env model prompt ?d (sort names) [] (s3\<lparr>fs := fs4\<rparr>)") auto
  from run u w l e have s': "s' = py_print (finished_line fn)
                                (s5\<lparr>fs := AList.update ?r (File (Bytes buf)) (fs s5)\<rparr>)"
    by simp
  have pl: "filter (\<lambda>n. endswith n ''.png'') (sort names) = png_listing (fs s3) ?d"
    unfolding names fs4 png_listing_def[symmetric]
    unfolding results_file_def path_join_def by (rule png_listing_update_results)
  from extract_pages_Inr[OF e] have
    f5: "fs s5 = fs4"
    and c5: "calls s5 = calls s3 @ page_requests env model prompt ?d (png_listing (fs s3) ?d)"
    and b5: "buf = concat (map2 result_block (png_listing (fs s3) ?d)
                 (runner_outcomes env model prompt ?d (length (calls s3)) (png_listing (fs s3) ?d)))"
    and h5: "list_all handled
                 (runner_outcomes env model prompt ?d (length (calls s3)) (png_listing (fs s3) ?d))"
    by (simp_all add: pl)
  have "map_of (fs s') = (map_of (fs s3))(?r \<mapsto> File (Bytes buf))"
    by (simp add: s' f5 fs4 update_conv')
  with b5 c5 h5 sv show ?thesis by (simp add: s')
qed

lemma process_pdf_Inr:
  assumes run: "process_pdf env folder out model prompt fn s = Inr s'"
  obtains fs1 ok s3 pages k where
    "makedirs env (pdf_folder out fn) (fs s) = Inr fs1"
    "convert_pdf_pages_to_png env (path_join folder fn) (pdf_folder out fn)
           (py_print (processing_line fn) (s\<lparr>fs := fs1\<rparr>)) = (ok, s3)"
    "pages_written env (pdf_folder out fn) (splitext_root fn) pages k (s\<lparr>fs := fs1\<rparr>) s3"
    "\<forall>j<k. page_ok env fs1 (pdf_folder out fn) (splitext_root fn) j (pages ! j)"
    "ok \<Longrightarrow> fitz_open fs1 (path_join folder fn) = Inr pages \<and> k = length pages"
proof -
  from run obtain fs1 where mk: "makedirs env (pdf_folder out fn) (fs s) = Inr fs1"
    by (cases "makedirs env (pdf_folder out fn) (fs s)") (simp_all add: process_pdf_makedirs_fails)
  obtain ok s3 where cv: "convert_pdf_pages_to_png env (path_join folder fn) (pdf_folder out fn)
           (py_print (processing_line fn) (s\<lparr>fs := fs1\<rparr>)) = (ok, s3)"
    by (cases "convert_pdf_pages_to_png env (path_join folder fn) (pdf_folder out fn)
           (py_print (processing_line fn) (s\<lparr>fs := fs1\<rparr>))") blast
  from convert_effect[OF cv] obtain pages k where
    pw: "pages_written env (pdf_folder out fn) (splitext_root fn) pages k
           (py_print (processing_line fn) (s\<lparr>fs := fs1\<rparr>)) s3"
    and po: "\<forall>j<k. page_ok env fs1 (pdf_folder out fn) (splitext_root fn) j (pages ! j)"
    and ok: "ok \<longrightarrow> fitz_open fs1 (path_join folder fn) = Inr pages \<and> k = length pages"
    by auto
  from pw have "pages_written env (pdf_folder out fn) (splitext_root fn) pages k (s\<lparr>fs := fs1\<rparr>) s3"
    by (rule pages_written_print0)
  with mk cv po ok that show thesis by blast
qed

lemma process_pdf_dirs:
  assumes run: "process_pdf env folder out model prompt fn s = Inr s'"
  shows "isdir (fs s') (pdf_folder out fn)" and "isdir (fs s) q \<Longrightarrow> isdir (fs s') q"
proof -
  from run obtain fs1 ok s3 pages k where
    mk: "makedirs env (pdf_folder out fn) (fs s) = Inr fs1"
    and cv: "convert_pdf_pages_to_png env (path_join folder fn) (pdf_folder out fn)
           (py_print (processing_line fn) (s\<lparr>fs := fs1\<rparr>)) = (ok, s3)"
    and pw: "pages_written env (pdf_folder out fn) (splitext_root fn) pages k (s\<lparr>fs := fs1\<rparr>) s3"
    and po: "\<forall>j<k. page_ok env fs1 (pdf_folder out fn) (splitext_root fn) j (pages ! j)"
    by (rule process_pdf_Inr)
  from po have po': "\<forall>j<k. page_ok env (fs (s\<lparr>fs := fs1\<rparr>)) (pdf_folder out fn) (splitext_root fn) j (pages ! j)"
    by simp
  have d3: "\<And>q. isdir (fs s3) q = isdir fs1 q"
    using pages_written_isdir[OF pw po'] by simp
  have d': "\<And>q. isdir (fs s') q = isdir (fs s3) q"
  proof (cases ok)
    case False
    with process_pdf_skip[OF mk, of folder s3 model prompt] cv run
    show "\<And>q. isdir (fs s') q = isdir (fs s3) q" by simp
  next
    case True
    with cv have cv': "convert_pdf_pages_to_png env (path_join folder fn) (pdf_folder out fn)
           (py_print (processing_line fn) (s\<lparr>fs := fs1\<rparr>)) = (True, s3)" by simp
    from process_pdf_extract[OF mk cv' run] obtain c where
      m: "map_of (fs s') = (map_of (fs s3))(results_file out fn \<mapsto> File c)"
      and sv: "saves env (fs s3) (results_file out fn)" by blast
    from sv have "map_of (fs s3) (results_file out fn) \<noteq> Some Dir" by (simp add: saves_def)
    with m show "\<And>q. isdir (fs s') q = isdir (fs s3) q" by (auto simp: isdir_def)
  qed
  from makedirs_Inr[OF mk] have i1: "isdir fs1 (pdf_folder out fn)"
    and c1: "created (fs s) fs1 (pdf_folder out fn)" by simp_all
  from i1 d3 d' show "isdir (fs s') (pdf_folder out fn)" by simp
  assume "isdir (fs s) q"
  from created_isdir[OF c1 this] d3 d' show "isdir (fs s') q" by simp
qed



lemma process_files_dirs:
  assumes "process_files env folder out model prompt names s = Inr s'"
  shows "(\<forall>q. isdir (fs s) q \<longrightarrow> isdir (fs s') q)
       \<and> (\<forall>f\<in>set names. endswith f ''.pdf'' \<longrightarrow> isdir (fs s') (pdf_folder out f))"
  using assms
proof (induction names arbitrary: s)
  case Nil
  then show ?case by simp
next
  case (Cons fn rest)
  show ?case
  proof (cases "endswith fn ''.pdf''")
    case False
    with Cons.prems have "process_files env folder out model prompt rest s = Inr s'" by simp
    from Cons.IH[OF this] False show ?thesis by simp
  next
    case True
    with Cons.prems obtain s1 where
      p: "process_pdf env folder out model prompt fn s = Inr s1"
      and r: "process_files env folder out model prompt rest s1 = Inr s'"
      by (cases "process_pdf env folder out model prompt fn s") simp_all
    from Cons.IH[OF r] have
      m: "\<forall>q. isdir (fs s1) q \<longrightarrow> isdir (fs s') q"
      and a: "\<forall>f\<in>set rest. endswith f ''.pdf'' \<longrightarrow> isdir (fs s') (pdf_folder out f)"
      by simp_all
    from process_pdf_dirs(1)[OF p] m have "isdir (fs s') (pdf_folder out fn)" by simp
    moreover have "\<forall>q. isdir (fs s) q \<longrightarrow> isdir (fs s') q"
      using process_pdf_dirs(2)[OF p] m by blast
    ultimately show ?thesis using a by simp
  qed
qed


lemma process_files_filter:
  "process_files env folder out model prompt names s
     = process_files env folder out model prompt (filter (\<lambda>f. endswith f ''.pdf'') names) s"
proof (induction names arbitrary: s)
  case Nil
  show ?case by simp
next
  case (Cons fn rest)
  show ?case
  proof (cases "endswith fn ''.pdf''")
    case True
    then show ?thesis by (simp add: Cons.IH split: sum.splits)
  next
    case False
    then show ?thesis by (simp add: Cons.IH)
  qed
qed

lemma first_failure:
  assumes "\<not> (\<forall>j<(n::nat). P j)"
  shows "\<exists>k<n. \<not> P k \<and> (\<forall>i<k. P i)"
proof -
  from assms have ex: "\<exists>j. j < n \<and> \<not> P j" by blast
  define k where "k = (LEAST j. j < n \<and> \<not> P j)"
  have k: "k < n \<and> \<not> P k"
    unfolding k_def by (rule LeastI_ex[OF ex])
  have "\<forall>i<k. P i"
  proof (intro allI impI)
    fix i assume "i < k"
    then have "\<not> (i < n \<and> \<not> P i)" unfolding k_def by (rule not_less_Least)
    moreover from \<open>i < k\<close> k have "i < n" by simp
    ultimately show "P i" by simp
  qed
  with k show ?thesis by blast
qed

lemma process_pdf_frame:
  assumes run: "process_pdf env folder out model prompt fn s = Inr s'"
    and ch: "map_of (fs s') q \<noteq> map_of (fs s) q"
  shows "(\<exists>k. q = take k (pdf_folder out fn)) \<or> (\<exists>n. q = path_join (pdf_folder out fn) n)"
proof -
  let ?d = "pdf_folder out fn"
  from run obtain fs1 ok s3 pages k where
    mk: "makedirs env ?d (fs s) = Inr fs1"
    and cv: "convert_pdf_pages_to_png env (path_join folder fn) ?d
           (py_print (processing_line fn) (s\<lparr>fs := fs1\<rparr>)) = (ok, s3)"
    and pw: "pages_written env ?d (splitext_root fn) pages k (s\<lparr>fs := fs1\<rparr>) s3"
    by (rule process_pdf_Inr)
  from makedirs_Inr[OF mk] have c1: "created (fs s) fs1 ?d" by simp
  show ?thesis
  proof (rule ccontr)
    assume n: "\<not> ?thesis"
    then have nk: "\<And>k. q \<noteq> take k ?d" and nn: "\<And>n. q \<noteq> path_join ?d n" by blast+
    have e1: "map_of fs1 q = map_of (fs s) q"
      using created_at[OF c1, of q] nk by blast
    have e3: "map_of (fs s3) q = map_of fs1 q"
      using pages_written_node[OF pw, of q] nn by auto
    have e': "map_of (fs s') q = map_of (fs s3) q"
    proof (cases ok)
      case False
      with process_pdf_skip[OF mk, of folder s3 model prompt] cv run show ?thesis by simp
    next
      case True
      with cv have cv': "convert_pdf_pages_to_png env (path_join folder fn) ?d
           (py_print (processing_line fn) (s\<lparr>fs := fs1\<rparr>)) = (True, s3)" by simp
      from process_pdf_extract[OF mk cv' run] obtain c where
        m: "map_of (fs s') = (map_of (fs s3))(results_file out fn \<mapsto> File c)" by blast
      from nn[of "splitext_root fn @ ''_results.txt''"] have "q \<noteq> results_file out fn"
        by (simp add: results_file_def)
      with m show ?thesis by simp
    qed
    from e1 e3 e' ch show False by simp
  qed
qed

lemma process_files_frame:
  assumes "process_files env folder out model prompt names s = Inr s'"
    and "map_of (fs s') q \<noteq> map_of (fs s) q"
  shows "\<exists>f\<in>set names. endswith f ''.pdf''
           \<and> ((\<exists>k. q = take k (pdf_folder out f)) \<or> (\<exists>n. q = path_join (pdf_folder out f) n))"
  using assms
proof (induction names arbitrary: s)
  case Nil
  then show ?case by simp
next
  case (Cons fn rest)
  show ?case
  proof (cases "endswith fn ''.pdf''")
    case False
    with Cons.prems have "process_files env folder out model prompt rest s = Inr s'" by simp
    from Cons.IH[OF this Cons.prems(2)] show ?thesis by auto
  next
    case True
    with Cons.prems obtain s1 where
      p: "process_pdf env folder out model prompt fn s = Inr s1"
      and r: "process_files env folder out model prompt rest s1 = Inr s'"
      by (cases "process_pdf env folder out model prompt fn s") simp_all
    show ?thesis
    proof (cases "map_of (fs s1) q = map_of (fs s) q")
      case True
      with Cons.prems(2) have "map_of (fs s') q \<noteq> map_of (fs s1) q" by simp
      from Cons.IH[OF r this] show ?thesis by auto
    next
      case False
      from process_pdf_frame[OF p False] True show ?thesis by auto
    qed
  qed
qed





lemma distinct_page_png: "distinct (map (page_png stem) [0..<n])"
  by (simp add: distinct_map inj_on_def) (metis page_png_inj)


lemma pdf_to_text_Inr:
  assumes "pdf_to_text env folder model prompt s = Inr s'"
  obtains fs1 s3 where
    "makedirs env (output_root folder) (fs s) = Inr fs1"
    "process_files env folder (output_root folder) model prompt (entries fs1 folder)
       (py_print ''Starting PDF-to-text conversion...'' (s\<lparr>fs := fs1\<rparr>)) = Inr s3"
    "s' = py_print ''All PDFs processed successfully!'' s3"
proof -
  from assms obtain fs1 where mk: "makedirs env (output_root folder) (fs s) = Inr fs1"
    by (cases "makedirs env (output_root folder) (fs s)")
       (simp_all add: pdf_to_text_def output_root_def Let_def)
  let ?s2 = "py_print ''Starting PDF-to-text conversion...'' (s\<lparr>fs := fs1\<rparr>)"
  from assms mk obtain names where l: "listdir (fs ?s2) folder = Inr names"
    by (cases "listdir (fs ?s2) folder") (simp_all add: pdf_to_text_def output_root_def Let_def)
  then have names: "names = entries fs1 folder" by (simp add: listdir_def split: if_splits)
  from assms mk l obtain s3 where
    p: "process_files env folder (output_root folder) model prompt names ?s2 = Inr s3"
    by (cases "process_files env folder (output_root folder) model prompt names ?s2")
       (simp_all add: pdf_to_text_def output_root_def Let_def)
  from assms mk l p have "s' = py_print ''All PDFs processed successfully!'' s3"
    by (simp add: pdf_to_text_def output_root_def Let_def)
  with mk p names that show thesis by blast
qed

lemma converted_pngs_not_pdf: "\<not> endswith ''converted_pngs'' ''.pdf''"
  by (simp add: endswith_def)

lemma created_root_entries:
  assumes "created fsys fs1 (output_root folder)"
    and "f \<in> set (entries fs1 folder)" and "endswith f ''.pdf''"
  shows "f \<in> set (entries fsys folder)"
proof (rule ccontr)
  assume "f \<notin> set (entries fsys folder)"
  then have n: "map_of fsys (folder @ [f]) = None" by (simp add: entries_iff)
  from assms(2) have "map_of fs1 (folder @ [f]) \<noteq> None" by (simp add: entries_iff)
  with n have "map_of fs1 (folder @ [f]) \<noteq> map_of fsys (folder @ [f])" by simp
  from created_at[OF assms(1) this] obtain k where
    k: "folder @ [f] = take k (folder @ [''converted_pngs''])"
    by (auto simp: output_root_def path_join_def)
  then have "length (folder @ [f]) = length (take k (folder @ [''converted_pngs'']))" by simp
  then have "length folder < k" by simp
  with k have "f = ''converted_pngs''" by simp
  with assms(3) converted_pngs_not_pdf show False by simp
qed

lemma created_entries_mono:
  assumes "created fsys fs1 p" and "f \<in> set (entries fsys folder)"
  shows "f \<in> set (entries fs1 folder)"
  using assms created_keeps[OF assms(1), of "folder @ [f]"] by (simp add: entries_iff)

lemma take_pdf_folder:
  "take k (pdf_folder out f) = pdf_folder out f \<or> take k (pdf_folder out f) = take k out"
  by (cases "k \<le> length out") (simp_all add: pdf_folder_def path_join_def)

lemma convert_keeps_results:
  assumes "makedirs env (pdf_folder out fn) (fs s) = Inr fs1"
    and "convert_pdf_pages_to_png env (path_join folder fn) (pdf_folder out fn)
           (py_print (processing_line fn) (s\<lparr>fs := fs1\<rparr>)) = (ok, s3)"
  shows "map_of (fs s3) (results_file out fn) = map_of (fs s) (results_file out fn)"
    and "calls s3 = calls s"
proof -
  let ?d = "pdf_folder out fn" and ?r = "results_file out fn"
  from convert_effect[OF assms(2)] obtain pages k where
    pw: "pages_written env ?d (splitext_root fn) pages k
           (py_print (processing_line fn) (s\<lparr>fs := fs1\<rparr>)) s3"
    by auto
  then show "calls s3 = calls s" by (simp add: pages_written_def)
  have r: "?r = path_join ?d (splitext_root fn @ ''_results.txt'')"
    by (simp add: results_file_def)
  have "map_of (fs s3) ?r = map_of fs1 ?r"
    using pages_written_node[OF pw, of ?r] results_ne_page_png[of "splitext_root fn"]
    by (auto simp: r path_join_def)
  moreover from makedirs_Inr[OF assms(1)] have "created (fs s) fs1 ?d" by simp
  then have "map_of fs1 ?r = map_of (fs s) ?r"
    unfolding r path_join_def by (rule created_below)
  ultimately show "map_of (fs s3) ?r = map_of (fs s) ?r" by simp
qed

lemma is_space_dropWhile:
  "(\<exists>c\<in>set (dropWhile P xs). \<not> P c) = (\<exists>c\<in>set xs. \<not> P c)"
  by (induction xs) auto

lemma py_strip_nonempty: "(py_strip line \<noteq> []) = (\<exists>c\<in>set line. \<not> is_space c)"
proof -
  have "(py_strip line \<noteq> []) = (dropWhile is_space (rev (dropWhile is_space line)) \<noteq> [])"
    by (simp add: py_strip_def)
  also have "\<dots> = (\<exists>c\<in>set (rev (dropWhile is_space line)). \<not> is_space c)"
    by (simp add: dropWhile_eq_Nil_conv)
  also have "\<dots> = (\<exists>c\<in>set line. \<not> is_space c)"
    using is_space_dropWhile[of is_space line] by simp
  finally show ?thesis .
qed

lemma py_split_first:
  "\<exists>c\<in>set line. \<not> is_space c \<Longrightarrow>
     \<exists>toks. py_split line = takeWhile (\<lambda>c. \<not> is_space c) (dropWhile is_space line) # toks"
proof (induction line)
  case Nil
  then show ?case by simp
next
  case (Cons c cs)
  show ?case
  proof (cases "is_space c")
    case True
    with Cons.prems have "\<exists>c\<in>set cs. \<not> is_space c" by auto
    from Cons.IH[OF this] True show ?thesis by simp
  next
    case False
    then show ?thesis by simp
  qed
qed

lemma first_tokens_eq:
  "first_tokens lines =
     Inr (map (\<lambda>line. takeWhile (\<lambda>c. \<not> is_space c) (dropWhile is_space line))
            (filter (\<lambda>line. \<exists>c\<in>set line. \<not> is_space c) lines))"
proof (induction lines)
  case Nil
  show ?case by simp
next
  case (Cons line rest)
  show ?case
  proof (cases "\<exists>c\<in>set line. \<not> is_space c")
    case True
    from py_split_first[OF True] obtain toks where
      "py_split line = takeWhile (\<lambda>c. \<not> is_space c) (dropWhile is_space line) # toks" by blast
    with True Cons.IH show ?thesis by (simp add: py_strip_nonempty)
  next
    case False
    with Cons.IH show ?thesis by (simp add: py_strip_nonempty)
  qed
qed

section \<open>The claims\<close>

subsection \<open>Rasterisation\<close>

text \<open>
  Claim C2. When the document at \<open>pdf_path\<close> opens with the pages \<open>pages\<close> and every page
  renders and can be saved (\<open>rasterizes\<close>), \<open>convert_pdf_pages_to_png\<close> returns \<open>True\<close>; for
  every 0-based index \<open>j\<close> the file \<open><stem>_page_<j+1>.png\<close> in the destination folder
  then holds the rendering of page \<open>j\<close> at 300 dpi, no other path has changed, and the
  file names are pairwise different, so exactly \<open>length pages\<close> files were written.
\<close>

theorem convert_writes_every_page:
  assumes "fitz_open (fs s) pdf_path = Inr pages"
    and "rasterizes env (fs s) pdf_path output_folder"
  shows "\<exists>s'. convert_pdf_pages_to_png env pdf_path output_folder s = (True, s')
           \<and> calls s' = calls s
           \<and> (\<forall>j<length pages.
                 map_of (fs s')
                   (path_join output_folder
                      (splitext_root (basename pdf_path) @ ''_page_'' @ str_nat (j + 1) @ ''.png''))
                 = Some (File (Bytes (the (get_pixmap env (pages ! j) 300)))))
           \<and> (\<forall>q. (\<forall>j<length pages.
                       q \<noteq> path_join output_folder
                              (splitext_root (basename pdf_path) @ ''_page_'' @ str_nat (j + 1) @ ''.png''))
                    \<longrightarrow> map_of (fs s') q = map_of (fs s) q)
           \<and> distinct (map (\<lambda>j. splitext_root (basename pdf_path) @ ''_page_'' @ str_nat (j + 1) @ ''.png'')
                          [0..<length pages])"
proof -
  let ?stem = "splitext_root (basename pdf_path)"
  from assms have oks: "\<forall>j<length pages. page_ok env (fs s) output_folder ?stem j (pages ! j)"
    by (simp add: rasterizes_iff)
  from convert_all_ok[OF assms(1) oks] obtain s' where
    c: "convert_pdf_pages_to_png env pdf_path output_folder s = (True, s')"
    and w: "pages_written env output_folder ?stem pages (length pages) s s'"
    by blast
  have d: "distinct (map (\<lambda>j. ?stem @ ''_page_'' @ str_nat (j + 1) @ ''.png'') [0..<length pages])"
  proof -
    have "page_png ?stem = (\<lambda>j. ?stem @ ''_page_'' @ str_nat (j + 1) @ ''.png'')"
      by (rule ext) (simp add: page_png_def)
    with distinct_page_png[of ?stem "length pages"] show ?thesis by simp
  qed
  from c w d show ?thesis
    unfolding pages_written_def page_png_def by blast
qed

theorem convert_writes_every_page_witness:
  "fitz_open (fs demo_state) [''d'', ''a.pdf''] = Inr [''p1'', ''p2'', ''p3'']
   \<and> rasterizes demo_env (fs demo_state) [''d'', ''a.pdf''] [''d'']
   \<and> fst (convert_pdf_pages_to_png demo_env [''d'', ''a.pdf''] [''d''] demo_state)
   \<and> map_of (fs (snd (convert_pdf_pages_to_png demo_env [''d'', ''a.pdf''] [''d''] demo_state)))
        [''d'', ''a_page_3.png''] = Some (File (Bytes ''p3@300''))"
proof -
  have h1: "fitz_open (fs demo_state) [''d'', ''a.pdf''] = Inr [''p1'', ''p2'', ''p3'']"
    by code_simp
  have h2: "rasterizes demo_env (fs demo_state) [''d'', ''a.pdf''] [''d'']"
    by code_simp
  from convert_writes_every_page[OF h1 h2] obtain s' where
    "convert_pdf_pages_to_png demo_env [''d'', ''a.pdf''] [''d''] demo_state = (True, s')" by blast
  then have h3: "fst (convert_pdf_pages_to_png demo_env [''d'', ''a.pdf''] [''d''] demo_state)"
    by simp
  have h4: "map_of (fs (snd (convert_pdf_pages_to_png demo_env [''d'', ''a.pdf''] [''d''] demo_state)))
        [''d'', ''a_page_3.png''] = Some (File (Bytes ''p3@300''))"
    by code_simp
  from h1 h2 h3 h4 show ?thesis by simp
qed

text \<open>
  Claim C7. When some step of the rasterisation raises (\<open>rasterizes\<close> fails),
  \<open>convert_pdf_pages_to_png\<close> returns \<open>False\<close> and its last console line is the error
  line with the text of the exception. Nothing is cleaned up: the \<open>k\<close> pages before the
  failing one are on disk with their renderings and no other path has changed, where
  \<open>k = 0\<close> if the document does not open and otherwise page \<open>k\<close> is the first that fails to
  render or to save.
\<close>

theorem convert_failure_keeps_partial_output:
  assumes "\<not> rasterizes env (fs s) pdf_path output_folder"
  shows "\<exists>s' e pages k.
           convert_pdf_pages_to_png env pdf_path output_folder s = (False, s')
           \<and> last (console s')
               = ''Error converting '' @ path_text (os_sep env) pdf_path @ '' to PNG: '' @ str_exn e
           \<and> calls s' = calls s
           \<and> (\<forall>j<k. map_of (fs s')
                         (path_join output_folder (page_png (splitext_root (basename pdf_path)) j))
                       = Some (File (Bytes (the (get_pixmap env (pages ! j) 300)))))
           \<and> (\<forall>q. (\<forall>j<k. q \<noteq> path_join output_folder
                                   (page_png (splitext_root (basename pdf_path)) j))
                    \<longrightarrow> map_of (fs s') q = map_of (fs s) q)
           \<and> (case fitz_open (fs s) pdf_path of
                 Inl e' \<Rightarrow> k = 0 \<and> e = e'
               | Inr doc \<Rightarrow>
                   pages = doc \<and> k < length doc
                   \<and> \<not> page_ok env (fs s) output_folder (splitext_root (basename pdf_path)) k (doc ! k))"
proof (cases "fitz_open (fs s) pdf_path")
  case (Inl e)
  let ?s' = "py_print (convert_error_line env pdf_path e) (py_print (converting_line env pdf_path) s)"
  have "convert_pdf_pages_to_png env pdf_path output_folder s = (False, ?s')"
    by (rule convert_open_fails[OF Inl])
  moreover have "last (console ?s')
       = ''Error converting '' @ path_text (os_sep env) pdf_path @ '' to PNG: '' @ str_exn e"
    by (simp add: convert_error_line_def)
  moreover have "calls ?s' = calls s" "fs ?s' = fs s" by simp_all
  ultimately show ?thesis using Inl
    by (intro exI[of _ ?s'] exI[of _ e] exI[of _ "[]"] exI[of _ 0]) simp
next
  case (Inr doc)
  let ?stem = "splitext_root (basename pdf_path)"
  from assms Inr have "\<not> (\<forall>j<length doc. page_ok env (fs s) output_folder ?stem j (doc ! j))"
    by (simp add: rasterizes_iff)
  from first_failure[OF this] obtain k where
    k1: "k < length doc" and k2: "\<not> page_ok env (fs s) output_folder ?stem k (doc ! k)"
    and pre: "\<forall>i<k. page_ok env (fs s) output_folder ?stem i (doc ! i)" by blast
  from convert_page_fails[OF Inr k1 pre k2] obtain s' e where
    c: "convert_pdf_pages_to_png env pdf_path output_folder s = (False, s')"
    and w: "pages_written env output_folder ?stem doc k s s'"
    and l: "last (console s') = convert_error_line env pdf_path e" by blast
  from c w l k1 k2 Inr show ?thesis
    unfolding pages_written_def convert_error_line_def
    by (intro exI[of _ s'] exI[of _ e] exI[of _ doc] exI[of _ k]) simp
qed

theorem convert_failure_keeps_partial_output_witness:
  "\<not> rasterizes demo_env (fs demo_state) [''d'', ''bad.pdf''] [''d'']
   \<and> \<not> fst (convert_pdf_pages_to_png demo_env [''d'', ''bad.pdf''] [''d''] demo_state)
   \<and> map_of (fs (snd (convert_pdf_pages_to_png demo_env [''d'', ''bad.pdf''] [''d''] demo_state)))
        [''d'', ''bad_page_1.png''] = Some (File (Bytes ''q1@300''))"
proof -
  have h: "\<not> rasterizes demo_env (fs demo_state) [''d'', ''bad.pdf''] [''d'']"
    by code_simp
  from convert_failure_keeps_partial_output[OF h] obtain s' where
    "convert_pdf_pages_to_png demo_env [''d'', ''bad.pdf''] [''d''] demo_state = (False, s')"
    by blast
  then have h2: "\<not> fst (convert_pdf_pages_to_png demo_env [''d'', ''bad.pdf''] [''d''] demo_state)"
    by simp
  have h3: "map_of (fs (snd (convert_pdf_pages_to_png demo_env [''d'', ''bad.pdf''] [''d''] demo_state)))
        [''d'', ''bad_page_1.png''] = Some (File (Bytes ''q1@300''))"
    by code_simp
  from h h2 h3 show ?thesis by simp
qed

subsection \<open>The document loop\<close>

text \<open>
  Claim C3. For an entry ending in \<open>.pdf\<close>, once its folder is made, the outcome \<open>ok\<close> of
  \<open>convert_pdf_pages_to_png\<close> decides. If it is \<open>False\<close>, no runner is invoked, the results
  file is what it was before (it is not opened), and the loop goes on with the remaining
  entries. If it is \<open>True\<close> and the document is processed to the end, the results file
  has been written and the runner was invoked once for every PNG entry of the folder.
\<close>

theorem extraction_only_after_successful_rasterization:
  assumes "endswith filename ''.pdf''"
    and "makedirs env (pdf_folder output_folder filename) (fs s) = Inr fs1"
    and "convert_pdf_pages_to_png env (path_join folder_path filename)
           (pdf_folder output_folder filename)
           (py_print (''Processing PDF: '' @ filename) (s\<lparr>fs := fs1\<rparr>)) = (ok, s3)"
  shows "(\<not> ok \<longrightarrow>
            process_files env folder_path output_folder model prompt (filename # rest) s
              = process_files env folder_path output_folder model prompt rest
                  (py_print (''Finished processing PDF: '' @ filename) s3)
            \<and> calls s3 = calls s
            \<and> map_of (fs s3) (results_file output_folder filename)
                = map_of (fs s) (results_file output_folder filename))
       \<and> (ok \<longrightarrow>
            (\<forall>s'. process_pdf env folder_path output_folder model prompt filename s = Inr s' \<longrightarrow>
               (\<exists>buf. map_of (fs s') (results_file output_folder filename) = Some (File (Bytes buf)))
               \<and> calls s' = calls s @ page_requests env model prompt (pdf_folder output_folder filename)
                                       (png_listing (fs s3) (pdf_folder output_folder filename))))"
proof -
  let ?d = "pdf_folder output_folder filename" and ?r = "results_file output_folder filename"
  have cv: "convert_pdf_pages_to_png env (path_join folder_path filename) ?d
           (py_print (processing_line filename) (s\<lparr>fs := fs1\<rparr>)) = (ok, s3)"
    using assms(3) by (simp add: processing_line_def)
  from convert_effect[OF cv] obtain pages k where
    pw: "pages_written env ?d (splitext_root filename) pages k
           (py_print (processing_line filename) (s\<lparr>fs := fs1\<rparr>)) s3"
    by auto
  then have c3: "calls s3 = calls s" by (simp add: pages_written_def)
  have r: "?r = path_join ?d (splitext_root filename @ ''_results.txt'')"
    by (simp add: results_file_def)
  have "map_of (fs s3) ?r = map_of fs1 ?r"
    using pages_written_node[OF pw, of ?r] results_ne_page_png[of "splitext_root filename"]
    by (auto simp: r path_join_def)
  moreover from makedirs_Inr[OF assms(2)] have "created (fs s) fs1 ?d" by simp
  then have "map_of fs1 ?r = map_of (fs s) ?r"
    unfolding r path_join_def by (rule created_below)
  ultimately have r3: "map_of (fs s3) ?r = map_of (fs s) ?r" by simp
  have skip: "\<not> ok \<Longrightarrow> process_files env folder_path output_folder model prompt (filename # rest) s
              = process_files env folder_path output_folder model prompt rest
                  (py_print (''Finished processing PDF: '' @ filename) s3)"
    using process_pdf_skip[OF assms(2), of folder_path s3 model prompt] cv assms(1)
    by (simp add: finished_line_def)
  have ext: "\<And>s'. ok \<Longrightarrow> process_pdf env folder_path output_folder model prompt filename s = Inr s' \<Longrightarrow>
               (\<exists>buf. map_of (fs s') ?r = Some (File (Bytes buf)))
               \<and> calls s' = calls s @ page_requests env model prompt ?d (png_listing (fs s3) ?d)"
  proof -
    fix s' assume "ok" and run: "process_pdf env folder_path output_folder model prompt filename s = Inr s'"
    with cv have cv': "convert_pdf_pages_to_png env (path_join folder_path filename) ?d
           (py_print (processing_line filename) (s\<lparr>fs := fs1\<rparr>)) = (True, s3)" by simp
    from process_pdf_extract[OF assms(2) cv' run] c3
    show "(\<exists>buf. map_of (fs s') ?r = Some (File (Bytes buf)))
               \<and> calls s' = calls s @ page_requests env model prompt ?d (png_listing (fs s3) ?d)"
      by simp
  qed
  from skip c3 r3 ext show ?thesis by blast
qed

theorem extraction_only_after_successful_rasterization_witness:
  "endswith ''bad.pdf'' ''.pdf''
   \<and> \<not> fst (convert_pdf_pages_to_png demo_env (path_join [''d''] ''bad.pdf'')
              (pdf_folder [''d'', ''converted_pngs''] ''bad.pdf'')
              (py_print (''Processing PDF: '' @ ''bad.pdf'')
                 (demo_state\<lparr>fs := projr (makedirs demo_env
                     (pdf_folder [''d'', ''converted_pngs''] ''bad.pdf'') (fs demo_state))\<rparr>)))
   \<and> map_of (fs (snd (convert_pdf_pages_to_png demo_env (path_join [''d''] ''bad.pdf'')
              (pdf_folder [''d'', ''converted_pngs''] ''bad.pdf'')
              (py_print (''Processing PDF: '' @ ''bad.pdf'')
                 (demo_state\<lparr>fs := projr (makedirs demo_env
                     (pdf_folder [''d'', ''converted_pngs''] ''bad.pdf'') (fs demo_state))\<rparr>)))))
        (results_file [''d'', ''converted_pngs''] ''bad.pdf'') = None"
proof -
  let ?d = "pdf_folder [''d'', ''converted_pngs''] ''bad.pdf''"
  let ?fs1 = "projr (makedirs demo_env ?d (fs demo_state))"
  let ?c = "convert_pdf_pages_to_png demo_env (path_join [''d''] ''bad.pdf'') ?d
              (py_print (''Processing PDF: '' @ ''bad.pdf'') (demo_state\<lparr>fs := ?fs1\<rparr>))"
  have h1: "endswith ''bad.pdf'' ''.pdf''" by code_simp
  have h2: "makedirs demo_env ?d (fs demo_state) = Inr ?fs1" by code_simp
  have h3: "?c = (fst ?c, snd ?c)" by simp
  have nok: "\<not> fst ?c" by code_simp
  have none: "map_of (fs demo_state) (results_file [''d'', ''converted_pngs''] ''bad.pdf'') = None"
    by code_simp
  from extraction_only_after_successful_rasterization[OF h1 h2 h3] nok
  have "map_of (fs (snd ?c)) (results_file [''d'', ''converted_pngs''] ''bad.pdf'')
          = map_of (fs demo_state) (results_file [''d'', ''converted_pngs''] ''bad.pdf'')"
    by blast
  with none h1 nok show ?thesis by simp
qed



text \<open>
  Claim C6. When the rasterisation of a document succeeds and the document is processed
  to the end, its results file holds exactly the blocks of this run, one for each PNG
  entry of its folder, whatever the file held before: it is opened with truncation.
  Every other entry of the folder that is not one of the pages written in this run, in
  particular a PNG of an earlier run, is what it was before.
\<close>

theorem results_file_is_replaced:
  assumes "makedirs env (pdf_folder output_folder filename) (fs s) = Inr fs1"
    and "fitz_open fs1 (path_join folder_path filename) = Inr pages"
    and "rasterizes env fs1 (path_join folder_path filename) (pdf_folder output_folder filename)"
    and "process_pdf env folder_path output_folder model prompt filename s = Inr s'"
  shows "map_of (fs s') (results_file output_folder filename)
           = Some (File (Bytes (concat
               (map2 result_block (png_listing (fs s') (pdf_folder output_folder filename))
                  (runner_outcomes env model prompt (pdf_folder output_folder filename)
                     (length (calls s))
                     (png_listing (fs s') (pdf_folder output_folder filename)))))))
       \<and> (\<forall>name. name \<noteq> splitext_root filename @ ''_results.txt''
                   \<and> (\<forall>j<length pages. name \<noteq> page_png (splitext_root filename) j)
              \<longrightarrow> map_of (fs s') (path_join (pdf_folder output_folder filename) name)
                    = map_of (fs s) (path_join (pdf_folder output_folder filename) name))"
proof -
  let ?d = "pdf_folder output_folder filename" and ?r = "results_file output_folder filename"
  let ?s2 = "py_print (processing_line filename) (s\<lparr>fs := fs1\<rparr>)"
  obtain ok s3 where cv: "convert_pdf_pages_to_png env (path_join folder_path filename) ?d ?s2 = (ok, s3)"
    by (cases "convert_pdf_pages_to_png env (path_join folder_path filename) ?d ?s2") blast
  from convert_success_iff[of env "path_join folder_path filename" ?d ?s2] cv assms(3)
  have ok: "ok" by simp
  with cv have cv': "convert_pdf_pages_to_png env (path_join folder_path filename) ?d ?s2 = (True, s3)"
    by simp
  from convert_effect[OF cv'] assms(2) obtain k where
    pw: "pages_written env ?d (splitext_root filename) pages k ?s2 s3" and k: "k = length pages"
    by auto
  from pw have c3: "calls s3 = calls s" by (simp add: pages_written_def)
  have r: "?r = ?d @ [splitext_root filename @ ''_results.txt'']"
    by (simp add: results_file_def path_join_def)
  from process_pdf_extract[OF assms(1) cv' assms(4)] c3 have
    m: "map_of (fs s') = (map_of (fs s3))(?r \<mapsto>
            File (Bytes (concat (map2 result_block (png_listing (fs s3) ?d)
                    (runner_outcomes env model prompt ?d (length (calls s)) (png_listing (fs s3) ?d))))))"
    by simp
  have pl: "png_listing (fs s') ?d = png_listing (fs s3) ?d"
  proof (rule png_listing_cong)
    fix n assume "endswith n ''.png''"
    with results_not_png[of "splitext_root filename"]
    have "n \<noteq> splitext_root filename @ ''_results.txt''" by auto
    then show "(map_of (fs s') (?d @ [n]) \<noteq> None) = (map_of (fs s3) (?d @ [n]) \<noteq> None)"
      by (simp add: m r)
  qed
  have first: "map_of (fs s') ?r
           = Some (File (Bytes (concat (map2 result_block (png_listing (fs s') ?d)
                  (runner_outcomes env model prompt ?d (length (calls s)) (png_listing (fs s') ?d))))))"
    by (simp add: m pl)
  from makedirs_Inr[OF assms(1)] have cr: "created (fs s) fs1 ?d" by simp
  have frame: "\<And>name. name \<noteq> splitext_root filename @ ''_results.txt'' \<Longrightarrow>
                 \<forall>j<length pages. name \<noteq> page_png (splitext_root filename) j \<Longrightarrow>
                 map_of (fs s') (path_join ?d name) = map_of (fs s) (path_join ?d name)"
  proof -
    fix name assume n1: "name \<noteq> splitext_root filename @ ''_results.txt''"
      and n2: "\<forall>j<length pages. name \<noteq> page_png (splitext_root filename) j"
    from n1 have "map_of (fs s') (path_join ?d name) = map_of (fs s3) (path_join ?d name)"
      by (simp add: m r path_join_def)
    also have "\<dots> = map_of fs1 (path_join ?d name)"
      using pages_written_node[OF pw, of "path_join ?d name"] n2 k
      by (auto simp: path_join_def)
    also have "\<dots> = map_of (fs s) (path_join ?d name)"
      unfolding path_join_def by (rule created_below[OF cr])
    finally show "map_of (fs s') (path_join ?d name) = map_of (fs s) (path_join ?d name)" .
  qed
  from first frame show ?thesis by blast
qed

theorem results_file_is_replaced_witness:
  "makedirs demo_env (pdf_folder [''d'', ''converted_pngs''] ''a.pdf'') (fs rerun_state)
     = Inr (fs rerun_state)
   \<and> rasterizes demo_env (fs rerun_state) (path_join [''d''] ''a.pdf'')
       (pdf_folder [''d'', ''converted_pngs''] ''a.pdf'')
   \<and> map_of (fs (projr (process_pdf demo_env [''d''] [''d'', ''converted_pngs''] ''m'' ''P''
                          ''a.pdf'' rerun_state)))
       (results_file [''d'', ''converted_pngs''] ''a.pdf'')
      = Some (File (Bytes (''P File: d/converted_pngs/a/a_page_1.png'' @ newline
                           @ ''Error processing a_page_2.png: boom'' @ newline)))
   \<and> map_of (fs (projr (process_pdf demo_env [''d''] [''d'', ''converted_pngs''] ''m'' ''P''
                          ''a.pdf'' rerun_state)))
       (path_join (pdf_folder [''d'', ''converted_pngs''] ''a.pdf'') ''a_page_2.png'')
      = Some (File (Bytes ''old2''))"
proof -
  let ?d = "pdf_folder [''d'', ''converted_pngs''] ''a.pdf''"
  let ?s' = "projr (process_pdf demo_env [''d''] [''d'', ''converted_pngs''] ''m'' ''P''
                          ''a.pdf'' rerun_state)"
  have h1: "makedirs demo_env ?d (fs rerun_state) = Inr (fs rerun_state)" by code_simp
  have h2: "fitz_open (fs rerun_state) (path_join [''d''] ''a.pdf'') = Inr [''p1'']" by code_simp
  have h3: "rasterizes demo_env (fs rerun_state) (path_join [''d''] ''a.pdf'') ?d" by code_simp
  have h4: "process_pdf demo_env [''d''] [''d'', ''converted_pngs''] ''m'' ''P'' ''a.pdf'' rerun_state
              = Inr ?s'" by code_simp
  note t = results_file_is_replaced[OF h1 h2 h3 h4]
  have l: "png_listing (fs ?s') ?d = [''a_page_1.png'', ''a_page_2.png'']" by code_simp
  have b: "concat (map2 result_block [''a_page_1.png'', ''a_page_2.png'']
                  (runner_outcomes demo_env ''m'' ''P'' ?d (length (calls rerun_state))
                     [''a_page_1.png'', ''a_page_2.png'']))
           = ''P File: d/converted_pngs/a/a_page_1.png'' @ newline
                           @ ''Error processing a_page_2.png: boom'' @ newline"
    by code_simp
  from t have c1: "map_of (fs ?s') (results_file [''d'', ''converted_pngs''] ''a.pdf'')
      = Some (File (Bytes (''P File: d/converted_pngs/a/a_page_1.png'' @ newline
                           @ ''Error processing a_page_2.png: boom'' @ newline)))"
    unfolding l b by simp
  have n1: "''a_page_2.png'' \<noteq> splitext_root ''a.pdf'' @ ''_results.txt''" by code_simp
  have n2: "\<forall>j<length [''p1'']. ''a_page_2.png'' \<noteq> page_png (splitext_root ''a.pdf'') j"
    by (simp add: page_png_def splitext_root_def str_nat.simps)
  have old: "map_of (fs rerun_state) (path_join ?d ''a_page_2.png'') = Some (File (Bytes ''old2''))"
    by code_simp
  from t n1 n2 have "map_of (fs ?s') (path_join ?d ''a_page_2.png'')
                       = map_of (fs rerun_state) (path_join ?d ''a_page_2.png'')"
    by blast
  with old have c2: "map_of (fs ?s') (path_join ?d ''a_page_2.png'') = Some (File (Bytes ''old2''))"
    by simp
  from h1 h3 c1 c2 show ?thesis by simp
qed

subsection \<open>The whole run\<close>



text \<open>
  Claim C8. Entries of the input folder that do not end in \<open>.pdf\<close> play no part: the
  document loop over a listing is the loop over its entries ending in \<open>.pdf\<close>, and every
  path that a completed run of \<open>pdf_to_text\<close> creates or changes is the output folder
  \<open>converted_pngs\<close> (or a parent made for it), or the folder of an entry ending in \<open>.pdf\<close>,
  or an entry directly inside such a folder.
\<close>

theorem non_pdf_entries_are_ignored:
  "process_files env folder_path output_folder model prompt names s
     = process_files env folder_path output_folder model prompt
         (filter (\<lambda>f. endswith f ''.pdf'') names) s
   \<and> (pdf_to_text env folder_path model prompt s = Inr s' \<longrightarrow>
        (\<forall>q. map_of (fs s') q \<noteq> map_of (fs s) q \<longrightarrow>
           (\<exists>k. q = take k (path_join folder_path ''converted_pngs''))
           \<or> (\<exists>f\<in>set (entries (fs s) folder_path). endswith f ''.pdf''
                \<and> (q = pdf_folder (path_join folder_path ''converted_pngs'') f
                    \<or> (\<exists>n. q = path_join (pdf_folder (path_join folder_path ''converted_pngs'') f) n)))))"
proof (intro conjI impI allI)
  show "process_files env folder_path output_folder model prompt names s
     = process_files env folder_path output_folder model prompt
         (filter (\<lambda>f. endswith f ''.pdf'') names) s"
    by (rule process_files_filter)
next
  fix q
  assume run: "pdf_to_text env folder_path model prompt s = Inr s'"
    and ch: "map_of (fs s') q \<noteq> map_of (fs s) q"
  let ?out = "path_join folder_path ''converted_pngs''"
  from run obtain fs1 s3 where
    mk: "makedirs env (output_root folder_path) (fs s) = Inr fs1"
    and p: "process_files env folder_path (output_root folder_path) model prompt (entries fs1 folder_path)
       (py_print ''Starting PDF-to-text conversion...'' (s\<lparr>fs := fs1\<rparr>)) = Inr s3"
    and s': "s' = py_print ''All PDFs processed successfully!'' s3"
    by (rule pdf_to_text_Inr)
  from makedirs_Inr[OF mk] have cr: "created (fs s) fs1 (output_root folder_path)" by simp
  show "(\<exists>k. q = take k ?out)
           \<or> (\<exists>f\<in>set (entries (fs s) folder_path). endswith f ''.pdf''
                \<and> (q = pdf_folder ?out f \<or> (\<exists>n. q = path_join (pdf_folder ?out f) n)))"
  proof (cases "map_of fs1 q = map_of (fs s) q")
    case False
    from created_at[OF cr this] show ?thesis by (auto simp: output_root_def)
  next
    case True
    with ch s' have "map_of (fs s3) q
        \<noteq> map_of (fs (py_print ''Starting PDF-to-text conversion...'' (s\<lparr>fs := fs1\<rparr>))) q"
      by simp
    from process_files_frame[OF p this] obtain f where
      f: "f \<in> set (entries fs1 folder_path)" "endswith f ''.pdf''"
      and q: "(\<exists>k. q = take k (pdf_folder (output_root folder_path) f))
             \<or> (\<exists>n. q = path_join (pdf_folder (output_root folder_path) f) n)"
      by blast
    from created_root_entries[OF cr f] have f0: "f \<in> set (entries (fs s) folder_path)" .
    from q show ?thesis
    proof
      assume "\<exists>k. q = take k (pdf_folder (output_root folder_path) f)"
      then obtain k where "q = take k (pdf_folder (output_root folder_path) f)" by blast
      with take_pdf_folder[of k "output_root folder_path" f]
      have "q = pdf_folder ?out f \<or> q = take k ?out" by (auto simp: output_root_def)
      with f0 f(2) show ?thesis by blast
    next
      assume "\<exists>n. q = path_join (pdf_folder (output_root folder_path) f) n"
      with f0 f(2) show ?thesis unfolding output_root_def by blast
    qed
  qed
qed

theorem non_pdf_entries_are_ignored_witness:
  "pdf_to_text demo_env [''d''] ''m'' ''P'' demo_state
     = Inr (projr (pdf_to_text demo_env [''d''] ''m'' ''P'' demo_state))
   \<and> map_of (fs (projr (pdf_to_text demo_env [''d''] ''m'' ''P'' demo_state)))
        [''d'', ''converted_pngs'', ''a'', ''a_results.txt'']
      \<noteq> map_of (fs demo_state) [''d'', ''converted_pngs'', ''a'', ''a_results.txt'']
   \<and> ((\<exists>k. [''d'', ''converted_pngs'', ''a'', ''a_results.txt'']
              = take k (path_join [''d''] ''converted_pngs''))
      \<or> (\<exists>f\<in>set (entries (fs demo_state) [''d'']). endswith f ''.pdf''
            \<and> ([''d'', ''converted_pngs'', ''a'', ''a_results.txt'']
                  = pdf_folder (path_join [''d''] ''converted_pngs'') f
                \<or> (\<exists>n. [''d'', ''converted_pngs'', ''a'', ''a_results.txt'']
                          = path_join (pdf_folder (path_join [''d''] ''converted_pngs'') f) n))))
   \<and> map_of (fs (projr (pdf_to_text demo_env [''d''] ''m'' ''P'' demo_state)))
        [''d'', ''converted_pngs'', ''notes''] = None"
proof -
  let ?s' = "projr (pdf_to_text demo_env [''d''] ''m'' ''P'' demo_state)"
  have h: "pdf_to_text demo_env [''d''] ''m'' ''P'' demo_state = Inr ?s'" by code_simp
  have ch: "map_of (fs ?s') [''d'', ''converted_pngs'', ''a'', ''a_results.txt'']
      \<noteq> map_of (fs demo_state) [''d'', ''converted_pngs'', ''a'', ''a_results.txt'']"
    by code_simp
  have n: "map_of (fs ?s') [''d'', ''converted_pngs'', ''notes''] = None" by code_simp
  from non_pdf_entries_are_ignored[of demo_env "[''d'']" "[]" "''m''" "''P''" "[]" demo_state ?s']
    h ch n
  show ?thesis by blast
qed

text \<open>
  Claim C10. The folders are made before the rasterisation is tried. After a completed
  run of \<open>pdf_to_text\<close> the folder \<open>converted_pngs\<close> exists, and so does the folder
  \<open>converted_pngs/<stem>\<close> of every entry of the input folder ending in \<open>.pdf\<close>, whether
  its rasterisation succeeded or not. In the loop body, from any state \<open>t\<close>: once the
  folder of the entry is made, a failing rasterisation still ends the body normally, with
  the folder in place and the results file left as it was (none is created).
\<close>

theorem document_folders_exist_after_the_run:
  "(pdf_to_text env folder_path model prompt s = Inr s' \<longrightarrow>
      isdir (fs s') (path_join folder_path ''converted_pngs'')
      \<and> (\<forall>f\<in>set (entries (fs s) folder_path). endswith f ''.pdf'' \<longrightarrow>
            isdir (fs s') (pdf_folder (path_join folder_path ''converted_pngs'') f)))
   \<and> (makedirs env (pdf_folder output_folder filename) (fs t) = Inr fs1
        \<and> \<not> rasterizes env fs1 (path_join folder_path filename) (pdf_folder output_folder filename)
      \<longrightarrow> (\<exists>t'. process_pdf env folder_path output_folder model prompt filename t = Inr t'
                 \<and> isdir (fs t') (pdf_folder output_folder filename)
                 \<and> calls t' = calls t
                 \<and> map_of (fs t') (results_file output_folder filename)
                     = map_of (fs t) (results_file output_folder filename)))"
proof (intro conjI impI)
  assume run: "pdf_to_text env folder_path model prompt s = Inr s'"
  from run obtain fs1' s3 where
    mk: "makedirs env (output_root folder_path) (fs s) = Inr fs1'"
    and p: "process_files env folder_path (output_root folder_path) model prompt (entries fs1' folder_path)
       (py_print ''Starting PDF-to-text conversion...'' (s\<lparr>fs := fs1'\<rparr>)) = Inr s3"
    and s': "s' = py_print ''All PDFs processed successfully!'' s3"
    by (rule pdf_to_text_Inr)
  from makedirs_Inr[OF mk] have i1: "isdir fs1' (output_root folder_path)"
    and cr: "created (fs s) fs1' (output_root folder_path)" by simp_all
  from process_files_dirs[OF p] have
    m: "\<forall>q. isdir fs1' q \<longrightarrow> isdir (fs s3) q"
    and a: "\<forall>f\<in>set (entries fs1' folder_path). endswith f ''.pdf'' \<longrightarrow>
               isdir (fs s3) (pdf_folder (output_root folder_path) f)"
    by simp_all
  from m i1 s' show "isdir (fs s') (path_join folder_path ''converted_pngs'')"
    by (simp add: output_root_def)
  show "\<forall>f\<in>set (entries (fs s) folder_path). endswith f ''.pdf'' \<longrightarrow>
            isdir (fs s') (pdf_folder (path_join folder_path ''converted_pngs'') f)"
  proof (intro ballI impI)
    fix f assume "f \<in> set (entries (fs s) folder_path)" and e: "endswith f ''.pdf''"
    from created_entries_mono[OF cr this(1)] have "f \<in> set (entries fs1' folder_path)" .
    with a e s' show "isdir (fs s') (pdf_folder (path_join folder_path ''converted_pngs'') f)"
      by (simp add: output_root_def)
  qed
next
  assume "makedirs env (pdf_folder output_folder filename) (fs t) = Inr fs1
        \<and> \<not> rasterizes env fs1 (path_join folder_path filename) (pdf_folder output_folder filename)"
  then have mk: "makedirs env (pdf_folder output_folder filename) (fs t) = Inr fs1"
    and nr: "\<not> rasterizes env fs1 (path_join folder_path filename) (pdf_folder output_folder filename)"
    by simp_all
  let ?d = "pdf_folder output_folder filename"
  let ?t2 = "py_print (processing_line filename) (t\<lparr>fs := fs1\<rparr>)"
  obtain ok t3 where cv: "convert_pdf_pages_to_png env (path_join folder_path filename) ?d ?t2 = (ok, t3)"
    by (cases "convert_pdf_pages_to_png env (path_join folder_path filename) ?d ?t2") blast
  from convert_success_iff[of env "path_join folder_path filename" ?d ?t2] cv nr
  have "\<not> ok" by simp
  with cv have cv': "convert_pdf_pages_to_png env (path_join folder_path filename) ?d ?t2 = (False, t3)"
    by simp
  let ?t' = "py_print (finished_line filename) t3"
  have r: "process_pdf env folder_path output_folder model prompt filename t = Inr ?t'"
    by (rule process_pdf_skip[OF mk cv'])
  from process_pdf_dirs(1)[OF r] have "isdir (fs ?t') ?d" .
  moreover from convert_keeps_results[OF mk cv'] have
    "map_of (fs ?t') (results_file output_folder filename)
       = map_of (fs t) (results_file output_folder filename)" "calls ?t' = calls t"
    by simp_all
  ultimately show "\<exists>t'. process_pdf env folder_path output_folder model prompt filename t = Inr t'
                 \<and> isdir (fs t') ?d \<and> calls t' = calls t
                 \<and> map_of (fs t') (results_file output_folder filename)
                     = map_of (fs t) (results_file output_folder filename)"
    using r by blast
qed

theorem document_folders_exist_after_the_run_witness:
  "pdf_to_text demo_env [''d''] ''m'' ''P'' demo_state
     = Inr (projr (pdf_to_text demo_env [''d''] ''m'' ''P'' demo_state))
   \<and> ''bad.pdf'' \<in> set (entries (fs demo_state) [''d''])
   \<and> endswith ''bad.pdf'' ''.pdf''
   \<and> isdir (fs (projr (pdf_to_text demo_env [''d''] ''m'' ''P'' demo_state)))
        (pdf_folder (path_join [''d''] ''converted_pngs'') ''bad.pdf'')
   \<and> \<not> rasterizes demo_env
          (projr (makedirs demo_env (pdf_folder [''d'', ''converted_pngs''] ''bad.pdf'') (fs demo_state)))
          (path_join [''d''] ''bad.pdf'') (pdf_folder [''d'', ''converted_pngs''] ''bad.pdf'')
   \<and> (\<exists>t'. process_pdf demo_env [''d''] [''d'', ''converted_pngs''] ''m'' ''P'' ''bad.pdf'' demo_state
               = Inr t'
            \<and> isdir (fs t') (pdf_folder [''d'', ''converted_pngs''] ''bad.pdf'')
            \<and> calls t' = calls demo_state
            \<and> map_of (fs t') (results_file [''d'', ''converted_pngs''] ''bad.pdf'')
                = map_of (fs demo_state) (results_file [''d'', ''converted_pngs''] ''bad.pdf''))"
proof -
  let ?s' = "projr (pdf_to_text demo_env [''d''] ''m'' ''P'' demo_state)"
  let ?d = "pdf_folder [''d'', ''converted_pngs''] ''bad.pdf''"
  let ?fs1 = "projr (makedirs demo_env ?d (fs demo_state))"
  have h: "pdf_to_text demo_env [''d''] ''m'' ''P'' demo_state = Inr ?s'" by code_simp
  have e: "''bad.pdf'' \<in> set (entries (fs demo_state) [''d''])" by code_simp
  have p: "endswith ''bad.pdf'' ''.pdf''" by code_simp
  have mk: "makedirs demo_env ?d (fs demo_state) = Inr ?fs1" by code_simp
  have nr: "\<not> rasterizes demo_env ?fs1 (path_join [''d''] ''bad.pdf'') ?d" by code_simp
  note t = document_folders_exist_after_the_run[of demo_env "[''d'']" "''m''" "''P''" demo_state ?s'
      "[''d'', ''converted_pngs'']" "''bad.pdf''" demo_state ?fs1]
  from t h e p have "isdir (fs ?s') (pdf_folder (path_join [''d''] ''converted_pngs'') ''bad.pdf'')"
    by blast
  moreover from t mk nr have
    "\<exists>t'. process_pdf demo_env [''d''] [''d'', ''converted_pngs''] ''m'' ''P'' ''bad.pdf'' demo_state
               = Inr t'
            \<and> isdir (fs t') ?d
            \<and> calls t' = calls demo_state
            \<and> map_of (fs t') (results_file [''d'', ''converted_pngs''] ''bad.pdf'')
                = map_of (fs demo_state) (results_file [''d'', ''converted_pngs''] ''bad.pdf'')"
    by blast
  ultimately show ?thesis using h e p nr by blast
qed

subsection \<open>Listing the models\<close>

text \<open>
  Claim C9. \<open>list_llm_models\<close> returns the empty list when the runner executable is not
  found and when the list command exits with a non-zero status. When the command exits
  with status zero it returns, in the order of the lines of its standard output, the
  first whitespace-delimited token of every line that is not blank.
\<close>

theorem list_llm_models_result:
  "(ollama env (length (calls s)) [''ollama'', ''list''] [] = Raised FileNotFoundError \<longrightarrow>
      (\<exists>s'. list_llm_models env s = Inr ([], s')))
   \<and> (\<forall>returncode out err.
         ollama env (length (calls s)) [''ollama'', ''list''] [] = Completed returncode out err
         \<and> returncode \<noteq> 0 \<longrightarrow>
         (\<exists>s'. list_llm_models env s = Inr ([], s')))
   \<and> (\<forall>out err.
         ollama env (length (calls s)) [''ollama'', ''list''] [] = Completed 0 out err \<longrightarrow>
         (\<exists>s'. list_llm_models env s
                 = Inr (map (\<lambda>line. takeWhile (\<lambda>c. \<not> is_space c) (dropWhile is_space line))
                          (filter (\<lambda>line. \<exists>c\<in>set line. \<not> is_space c) (py_splitlines out)),
                        s')))"
  by (simp add: list_llm_models_def Let_def first_tokens_eq)

theorem list_llm_models_result_witness:
  "ollama demo_env (length (calls demo_state)) [''ollama'', ''list''] []
     = Completed 0 (''NAME ID'' @ newline @ ''llava:7b 8dd3'' @ newline @ '' '' @ newline
                      @ ''  phi3  4f22'') []
   \<and> map_sum id fst (list_llm_models demo_env demo_state) = Inr [''NAME'', ''llava:7b'', ''phi3'']
   \<and> map_sum id fst
        (list_llm_models (demo_env\<lparr>ollama := \<lambda>i argv input. Raised FileNotFoundError\<rparr>) demo_state)
      = Inr []
   \<and> map_sum id fst
        (list_llm_models (demo_env\<lparr>ollama := \<lambda>i argv input. Completed 2 [] ''down''\<rparr>) demo_state)
      = Inr []"
proof -
  let ?out = "''NAME ID'' @ newline @ ''llava:7b 8dd3'' @ newline @ '' '' @ newline @ ''  phi3  4f22''"
  let ?nf = "demo_env\<lparr>ollama := \<lambda>i argv input. Raised FileNotFoundError\<rparr>"
  let ?nz = "demo_env\<lparr>ollama := \<lambda>i argv input. Completed 2 [] ''down''\<rparr>"
  have h: "ollama demo_env (length (calls demo_state)) [''ollama'', ''list''] [] = Completed 0 ?out []"
    by code_simp
  have t: "map (\<lambda>line. takeWhile (\<lambda>c. \<not> is_space c) (dropWhile is_space line))
             (filter (\<lambda>line. \<exists>c\<in>set line. \<not> is_space c) (py_splitlines ?out))
           = [''NAME'', ''llava:7b'', ''phi3'']"
    by code_simp
  from list_llm_models_result[of demo_env demo_state] h obtain s' where
    "list_llm_models demo_env demo_state
       = Inr (map (\<lambda>line. takeWhile (\<lambda>c. \<not> is_space c) (dropWhile is_space line))
                (filter (\<lambda>line. \<exists>c\<in>set line. \<not> is_space c) (py_splitlines ?out)), s')"
    by blast
  with t have a: "map_sum id fst (list_llm_models demo_env demo_state)
                    = Inr [''NAME'', ''llava:7b'', ''phi3'']" by simp
  have "ollama ?nf (length (calls demo_state)) [''ollama'', ''list''] [] = Raised FileNotFoundError"
    by simp
  with list_llm_models_result[of ?nf demo_state] obtain s1 where
    "list_llm_models ?nf demo_state = Inr ([], s1)" by blast
  then have b: "map_sum id fst (list_llm_models ?nf demo_state) = Inr []" by simp
  have "ollama ?nz (length (calls demo_state)) [''ollama'', ''list''] [] = Completed 2 [] ''down''
        \<and> (2::int) \<noteq> 0"
    by simp
  with list_llm_models_result[of ?nz demo_state] obtain s2 where
    "list_llm_models ?nz demo_state = Inr ([], s2)" by blast
  then have c: "map_sum id fst (list_llm_models ?nz demo_state) = Inr []" by simp
  from h a b c show ?thesis by simp
qed

subsection \<open>The order and the number of the blocks\<close>




end
